theory Spec2Isabelle
  imports Complex_Main
begin

section \<open>Errors\<close>

text \<open>
  Every failure of \<^verbatim>\<open>riemannian.py\<close> is a Python \<^verbatim>\<open>ValueError\<close>. The three
  validation failures are told apart by their message and its arguments; a failure
  raised inside the array substrate (\<^verbatim>\<open>tf.einsum\<close>, \<^verbatim>\<open>tf.concat\<close>, \<^verbatim>\<open>tf.tile\<close>,
  broadcasting, list indexing) is \<open>SubstrateError\<close> with the name of the operation.
\<close>

datatype base_dtype = Float32 | Float64 | Int32 | Int64

datatype dtype = Plain base_dtype | Ref base_dtype

datatype error =
    NotATensorTrain
  | ShapesDiffer "nat list list" "nat list list"
  | DtypesDiffer dtype dtype
  | SubstrateError string

definition bindE :: "error + 'a \<Rightarrow> ('a \<Rightarrow> error + 'b) \<Rightarrow> error + 'b" where
  "bindE m f = (case m of Inl e \<Rightarrow> Inl e | Inr x \<Rightarrow> f x)"

definition py_nth :: "'a list \<Rightarrow> nat \<Rightarrow> error + 'a" where
  "py_nth xs i = (if i < length xs then Inr (xs ! i) else Inl (SubstrateError ''index''))"

fun mapE :: "('a \<Rightarrow> error + 'b) \<Rightarrow> 'a list \<Rightarrow> error + 'b list" where
  "mapE f [] = Inr []"
| "mapE f (x # xs) =
     (case f x of Inl e \<Rightarrow> Inl e
      | Inr y \<Rightarrow> (case mapE f xs of Inl e \<Rightarrow> Inl e | Inr ys \<Rightarrow> Inr (y # ys)))"

fun foldE :: "('a \<Rightarrow> 's \<Rightarrow> error + 's) \<Rightarrow> 'a list \<Rightarrow> 's \<Rightarrow> error + 's" where
  "foldE f [] s = Inr s"
| "foldE f (x # xs) s = (case f x s of Inl e \<Rightarrow> Inl e | Inr s' \<Rightarrow> foldE f xs s')"

section \<open>The array substrate\<close>

text \<open>
  A dense array is its static shape and its entries, read by a multi-index. Entries are
  real numbers: the arithmetic of the model is exact. Only the entries at in-range
  multi-indices mean anything.
\<close>

record tensor =
  dims :: "nat list"
  elems :: "nat list \<Rightarrow> real"

definition tf_ones :: "nat list \<Rightarrow> tensor" where
  "tf_ones shape = \<lparr>dims = shape, elems = (\<lambda>ix. 1)\<rparr>"

definition tf_zeros :: "nat list \<Rightarrow> tensor" where
  "tf_zeros shape = \<lparr>dims = shape, elems = (\<lambda>ix. 0)\<rparr>"

definition tf_expand_dims0 :: "tensor \<Rightarrow> tensor" where
  "tf_expand_dims0 t = \<lparr>dims = 1 # dims t, elems = (\<lambda>ix. elems t (tl ix))\<rparr>"

definition tf_tile :: "tensor \<Rightarrow> nat list \<Rightarrow> error + tensor" where
  "tf_tile t multiples =
     (if length multiples \<noteq> length (dims t) then Inl (SubstrateError ''tile'')
      else Inr \<lparr>dims = map2 (*) (dims t) multiples,
                elems = (\<lambda>ix. elems t (map2 (\<lambda>i d. i mod d) ix (dims t)))\<rparr>)"

definition tf_concat :: "tensor \<Rightarrow> tensor \<Rightarrow> nat \<Rightarrow> error + tensor" where
  "tf_concat a b axis =
     (if length (dims a) \<noteq> length (dims b) \<or> \<not> axis < length (dims a)
         \<or> (dims a)[axis := 0] \<noteq> (dims b)[axis := 0]
      then Inl (SubstrateError ''concat'')
      else Inr \<lparr>dims = (dims a)[axis := dims a ! axis + dims b ! axis],
                elems = (\<lambda>ix. if ix ! axis < dims a ! axis then elems a ix
                               else elems b (ix[axis := ix ! axis - dims a ! axis]))\<rparr>)"

definition tf_reduce_sum0 :: "tensor \<Rightarrow> error + tensor" where
  "tf_reduce_sum0 t =
     (case dims t of
        [] \<Rightarrow> Inl (SubstrateError ''reduce_sum'')
      | n # ds \<Rightarrow> Inr \<lparr>dims = ds, elems = (\<lambda>ix. \<Sum>s<n. elems t (s # ix))\<rparr>)"

text \<open>Subtraction broadcasts as the substrate does: shapes are aligned at their last
  axis and an axis of size one is stretched.\<close>

fun broadcast_rev :: "nat list \<Rightarrow> nat list \<Rightarrow> nat list option" where
  "broadcast_rev [] ys = Some ys"
| "broadcast_rev (x # xs) [] = Some (x # xs)"
| "broadcast_rev (x # xs) (y # ys) =
     (if x = y \<or> y = 1 then map_option ((#) x) (broadcast_rev xs ys)
      else if x = 1 then map_option ((#) y) (broadcast_rev xs ys)
      else None)"

definition broadcast_index :: "nat list \<Rightarrow> nat list \<Rightarrow> nat list" where
  "broadcast_index ds ix =
     map2 (\<lambda>d i. if d = 1 then 0 else i) ds (drop (length ix - length ds) ix)"

definition tf_sub :: "tensor \<Rightarrow> tensor \<Rightarrow> error + tensor" where
  "tf_sub a b =
     (case broadcast_rev (rev (dims a)) (rev (dims b)) of
        None \<Rightarrow> Inl (SubstrateError ''sub'')
      | Some r \<Rightarrow> Inr \<lparr>dims = rev r,
                       elems = (\<lambda>ix. elems a (broadcast_index (dims a) ix)
                                     - elems b (broadcast_index (dims b) ix))\<rparr>)"

subsection \<open>Einstein summation\<close>

text \<open>
  \<^verbatim>\<open>tf.einsum(equation, *inputs)\<close>: the equation is \<^verbatim>\<open>in1,in2,...->out\<close>, one
  letter per axis. It fails when the number of inputs, the rank of an input or the size
  of a repeated letter does not fit; otherwise entry \<open>out\<close> of the result is the sum,
  over the letters that are not in \<open>out\<close>, of the product of the inputs' entries.
\<close>

fun split_on :: "char \<Rightarrow> string \<Rightarrow> string list" where
  "split_on c [] = [[]]"
| "split_on c (x # xs) =
     (if x = c then [] # split_on c xs
      else (case split_on c xs of [] \<Rightarrow> [[x]] | w # ws \<Rightarrow> (x # w) # ws))"

fun split_arrow :: "string \<Rightarrow> (string \<times> string) option" where
  "split_arrow (x # y # r) =
     (if x = CHR ''-'' \<and> y = CHR ''>'' then Some ([], r)
      else map_option (\<lambda>(l, out). (x # l, out)) (split_arrow (y # r)))"
| "split_arrow _ = None"

type_synonym axes = "(char \<times> nat) list"

fun bind_axes :: "string \<Rightarrow> nat list \<Rightarrow> axes \<Rightarrow> axes option" where
  "bind_axes [] [] env = Some env"
| "bind_axes (c # cs) (n # ns) env =
     (case map_of env c of
        None \<Rightarrow> bind_axes cs ns (env @ [(c, n)])
      | Some m \<Rightarrow> if m = n then bind_axes cs ns env else None)"
| "bind_axes _ _ env = None"

fun bind_inputs :: "string list \<Rightarrow> nat list list \<Rightarrow> axes \<Rightarrow> axes option" where
  "bind_inputs [] [] env = Some env"
| "bind_inputs (l # ls) (d # ds) env =
     (case bind_axes l d env of None \<Rightarrow> None | Some env' \<Rightarrow> bind_inputs ls ds env')"
| "bind_inputs _ _ env = None"

definition axis_of :: "axes \<Rightarrow> char \<Rightarrow> nat" where
  "axis_of env c = (case map_of env c of None \<Rightarrow> 0 | Some i \<Rightarrow> i)"

fun sum_axes :: "axes \<Rightarrow> (axes \<Rightarrow> real) \<Rightarrow> axes \<Rightarrow> real" where
  "sum_axes [] f asg = f asg"
| "sum_axes ((c, n) # rest) f asg = (\<Sum>i<n. sum_axes rest f ((c, i) # asg))"

definition tf_einsum :: "string \<Rightarrow> tensor list \<Rightarrow> error + tensor" where
  "tf_einsum equation inputs =
     (case split_arrow equation of
        None \<Rightarrow> Inl (SubstrateError ''einsum'')
      | Some (ins, out) \<Rightarrow>
          let labels = split_on CHR '','' ins in
          (case bind_inputs labels (map dims inputs) [] of
             None \<Rightarrow> Inl (SubstrateError ''einsum'')
           | Some env \<Rightarrow>
               if \<not> list_all (\<lambda>c. c \<in> set (map fst env)) out
               then Inl (SubstrateError ''einsum'')
               else Inr \<lparr>dims = map (axis_of env) out,
                         elems = (\<lambda>ix. sum_axes (filter (\<lambda>(c, n). c \<notin> set out) env)
                                   (\<lambda>asg. prod_list (map2 (\<lambda>l t. elems t (map (axis_of asg) l))
                                                          labels inputs))
                                   (zip out ix))\<rparr>))"

section \<open>Tensor trains\<close>

text \<open>
  The container of the library. A \<^verbatim>\<open>TensorTrain\<close> has \<open>batch_size = None\<close>, a
  \<^verbatim>\<open>TensorTrainBatch\<close> of \<open>S\<close> elements has \<open>batch_size = Some S\<close> and every core
  carries a leading axis of size \<open>S\<close>. Core \<open>k\<close> of a TT-tensor has shape
  \<open>(r\<^sub>k, n\<^sub>k, r\<^sub>k\<^sub>+\<^sub>1)\<close>, of a TT-matrix \<open>(r\<^sub>k, n\<^sub>k, m\<^sub>k, r\<^sub>k\<^sub>+\<^sub>1)\<close>; the raw shape is
  the list of the mode-size lists (one list for a tensor, two for a matrix).
\<close>

record tt =
  tt_cores :: "tensor list"
  raw_shape :: "nat list list"
  dtype :: dtype
  batch_size :: "nat option"

definition TensorTrain :: "tensor list \<Rightarrow> nat list list \<Rightarrow> dtype \<Rightarrow> tt" where
  "TensorTrain cores shape dt =
     \<lparr>tt_cores = cores, raw_shape = shape, dtype = dt, batch_size = None\<rparr>"

definition TensorTrainBatch :: "tensor list \<Rightarrow> nat list list \<Rightarrow> dtype \<Rightarrow> nat \<Rightarrow> tt" where
  "TensorTrainBatch cores shape dt n =
     \<lparr>tt_cores = cores, raw_shape = shape, dtype = dt, batch_size = Some n\<rparr>"

definition is_TensorTrain :: "tt \<Rightarrow> bool" where
  "is_TensorTrain t = (batch_size t = None)"

definition is_TensorTrainBatch :: "tt \<Rightarrow> bool" where
  "is_TensorTrainBatch t = (batch_size t \<noteq> None)"

definition get_raw_shape :: "tt \<Rightarrow> nat list list" where
  "get_raw_shape t = raw_shape t"

definition ndims :: "tt \<Rightarrow> nat" where
  "ndims t = length (tt_cores t)"

definition is_tt_matrix :: "tt \<Rightarrow> bool" where
  "is_tt_matrix t = (length (raw_shape t) > 1)"

fun base_dtype_of :: "dtype \<Rightarrow> base_dtype" where
  "base_dtype_of (Plain b) = b"
| "base_dtype_of (Ref b) = b"

definition is_compatible_with :: "dtype \<Rightarrow> dtype \<Rightarrow> bool" where
  \<comment> \<open>\<^verbatim>\<open>DType.is_compatible_with\<close>: the same type, or the reference type of this one.\<close>
  "is_compatible_with self other = (self = other \<or> self = Plain (base_dtype_of other))"

subsection \<open>Shape and batch utilities\<close>

text \<open>
  Modelled from the spec: the module \<^verbatim>\<open>shapes\<close> is not among the sources. Its
  functions expose the raw shape, the batch size (one for a plain TT object, which is
  the batch-of-one special case), the TT-ranks read off the cores, and the promotion
  of a TT object to a batch, which is the identity on a batch and gives every core of
  a plain TT object a leading axis of size one.
\<close>

definition dim_at :: "tensor \<Rightarrow> nat \<Rightarrow> nat" where
  "dim_at c i = (if i < length (dims c) then dims c ! i else 0)"

definition left_tt_rank_dim :: "tt \<Rightarrow> nat" where
  "left_tt_rank_dim t = (if is_TensorTrainBatch t then 1 else 0)"

definition right_tt_rank_dim :: "tt \<Rightarrow> nat" where
  "right_tt_rank_dim t =
     (if is_tt_matrix t then 3 else 2) + (if is_TensorTrainBatch t then 1 else 0)"

definition lazy_raw_shape :: "tt \<Rightarrow> nat list list" where
  "lazy_raw_shape t = raw_shape t"

definition lazy_batch_size :: "tt \<Rightarrow> nat" where
  "lazy_batch_size t = (case batch_size t of None \<Rightarrow> 1 | Some n \<Rightarrow> n)"

definition lazy_tt_ranks :: "tt \<Rightarrow> nat list" where
  "lazy_tt_ranks t =
     map (\<lambda>c. dim_at c (left_tt_rank_dim t)) (tt_cores t)
     @ (case rev (tt_cores t) of [] \<Rightarrow> [] | c # _ \<Rightarrow> [dim_at c (right_tt_rank_dim t)])"

definition expand_batch_dim :: "tt \<Rightarrow> tt" where
  "expand_batch_dim t =
     (case batch_size t of
        Some n \<Rightarrow> t
      | None \<Rightarrow> t\<lparr>tt_cores := map tf_expand_dims0 (tt_cores t), batch_size := Some 1\<rparr>)"

section \<open>The projections of \<^verbatim>\<open>riemannian.py\<close>\<close>

text \<open>
  The orthogonalisation of the manifold point (\<^verbatim>\<open>decompositions.orthogonalize_tt_cores\<close>)
  is not among the sources: the three operations take it as their first argument
  \<open>orth\<close>, called as \<open>orth tt left_to_right\<close>.
\<close>

subsection \<open>Argument checks\<close>

definition check_args :: "tt \<Rightarrow> tt \<Rightarrow> error option" where
  "check_args what where =
     (if \<not> is_TensorTrain where then Some NotATensorTrain
      else if get_raw_shape where \<noteq> get_raw_shape what
        then Some (ShapesDiffer (get_raw_shape where) (get_raw_shape what))
      else if \<not> is_compatible_with (dtype where) (dtype what)
        then Some (DtypesDiffer (dtype where) (dtype what))
      else None)"

subsection \<open>The accumulators \<open>rhs\<close> and \<open>lhs\<close>\<close>

text \<open>Both are Python lists of \<open>ndims + 1\<close> entries, \<^verbatim>\<open>None\<close> until written.\<close>

definition get_acc :: "tensor option list \<Rightarrow> nat \<Rightarrow> error + tensor" where
  "get_acc acc i =
     bindE (py_nth acc i)
       (\<lambda>x. case x of None \<Rightarrow> Inl (SubstrateError ''einsum'') | Some t \<Rightarrow> Inr t)"

definition rhs_step ::
  "string \<Rightarrow> tt \<Rightarrow> tt \<Rightarrow> nat \<Rightarrow> tensor option list \<Rightarrow> error + tensor option list" where
  "rhs_step mode_str what right_tangent_space_tens core_idx rhs =
     bindE (py_nth (tt_cores what) core_idx) (\<lambda>tens_core.
     bindE (py_nth (tt_cores right_tangent_space_tens) core_idx) (\<lambda>right_tang_core.
     bindE (get_acc rhs (core_idx + 1)) (\<lambda>rhs_next.
     bindE (tf_einsum (''sa'' @ mode_str @ ''b,sbd,c'' @ mode_str @ ''d->sac'')
              [tens_core, rhs_next, right_tang_core]) (\<lambda>t.
     Inr (rhs[core_idx := Some t])))))"

definition prepare_rhs :: "string \<Rightarrow> tt \<Rightarrow> tt \<Rightarrow> nat \<Rightarrow> nat \<Rightarrow> error + tensor option list" where
  "prepare_rhs mode_str what right_tangent_space_tens n batch =
     foldE (rhs_step mode_str what right_tangent_space_tens) (rev [1..<n])
       ((replicate (n + 1) None)[n := Some (tf_ones [batch, 1, 1])])"

definition lhs_step ::
  "string \<Rightarrow> tt \<Rightarrow> tt \<Rightarrow> nat \<Rightarrow> tensor option list \<Rightarrow> error + tensor option list" where
  "lhs_step mode_str what left_tangent_space_tens core_idx lhs =
     bindE (py_nth (tt_cores what) core_idx) (\<lambda>tens_core.
     bindE (py_nth (tt_cores left_tangent_space_tens) core_idx) (\<lambda>left_tang_core.
     bindE (get_acc lhs core_idx) (\<lambda>lhs_prev.
     bindE (tf_einsum (''sab,a'' @ mode_str @ ''c,sb'' @ mode_str @ ''d->scd'')
              [lhs_prev, left_tang_core, tens_core]) (\<lambda>t.
     Inr (lhs[core_idx + 1 := Some t])))))"

definition prepare_lhs :: "string \<Rightarrow> tt \<Rightarrow> tt \<Rightarrow> nat \<Rightarrow> nat \<Rightarrow> error + tensor option list" where
  "prepare_lhs mode_str what left_tangent_space_tens n batch =
     foldE (lhs_step mode_str what left_tangent_space_tens) [0..<n - 1]
       ((replicate (n + 1) None)[0 := Some (tf_ones [batch, 1, 1])])"

subsection \<open>Assembly of an output core\<close>

text \<open>
  The last part of the loop body, the same text in the three operations
  (\<^verbatim>\<open>project_matmul\<close> has the TT-matrix branch only): the tangent cores get the output
  batch axis when the output is a batch, and the core is the block
  \<open>[proj | left]\<close>, \<open>[right ; proj]\<close> or \<open>[[right, 0], [proj, left]]\<close>.
\<close>

definition extend_core :: "bool \<Rightarrow> bool \<Rightarrow> nat \<Rightarrow> tensor \<Rightarrow> error + tensor" where
  "extend_core output_is_batch matrix output_batch_size core =
     (if output_is_batch
      then tf_tile (tf_expand_dims0 core)
             (if matrix then [output_batch_size, 1, 1, 1, 1] else [output_batch_size, 1, 1, 1])
      else Inr core)"

definition assemble_core ::
  "bool \<Rightarrow> bool \<Rightarrow> nat \<Rightarrow> nat \<Rightarrow> nat \<Rightarrow> nat \<Rightarrow> nat list list \<Rightarrow> nat list \<Rightarrow> nat list
     \<Rightarrow> nat \<Rightarrow> tensor \<Rightarrow> tensor \<Rightarrow> tensor \<Rightarrow> error + tensor" where
  "assemble_core output_is_batch matrix output_batch_size right_rank_dim left_rank_dim n
       raw_shape' right_tangent_tt_ranks left_tangent_tt_ranks
       core_idx proj_core left_tang_core right_tang_core =
     bindE (extend_core output_is_batch matrix output_batch_size left_tang_core)
       (\<lambda>extended_left_tang_core.
     bindE (extend_core output_is_batch matrix output_batch_size right_tang_core)
       (\<lambda>extended_right_tang_core.
     if core_idx = 0 then tf_concat proj_core extended_left_tang_core right_rank_dim
     else if core_idx = n - 1 then tf_concat extended_right_tang_core proj_core left_rank_dim
     else
       bindE (py_nth right_tangent_tt_ranks core_idx) (\<lambda>rank_1.
       bindE (py_nth left_tangent_tt_ranks (core_idx + 1)) (\<lambda>rank_2.
       bindE (if matrix
              then bindE (py_nth raw_shape' 0) (\<lambda>row0. bindE (py_nth row0 core_idx) (\<lambda>mode_size_n.
                   bindE (py_nth raw_shape' 1) (\<lambda>row1. bindE (py_nth row1 core_idx) (\<lambda>mode_size_m.
                   Inr [rank_1, mode_size_n, mode_size_m, rank_2]))))
              else bindE (py_nth raw_shape' 0) (\<lambda>row0. bindE (py_nth row0 core_idx) (\<lambda>mode_size.
                   Inr [rank_1, mode_size, rank_2]))) (\<lambda>shape0.
       let shape = (if output_is_batch then [output_batch_size] @ shape0 else shape0);
           zeros = tf_zeros shape in
       bindE (tf_concat extended_right_tang_core zeros right_rank_dim) (\<lambda>upper.
       bindE (tf_concat proj_core extended_left_tang_core right_rank_dim) (\<lambda>lower.
       tf_concat upper lower left_rank_dim)))))))"

subsection \<open>\<^verbatim>\<open>project_sum\<close>\<close>

definition project_sum_proj_core ::
  "string \<Rightarrow> string \<Rightarrow> string \<Rightarrow> tensor option \<Rightarrow> nat \<Rightarrow> nat
     \<Rightarrow> tensor option list \<Rightarrow> tensor option list \<Rightarrow> tensor \<Rightarrow> tensor \<Rightarrow> error + tensor" where
  "project_sum_proj_core mode_str another_mode_str output_batch_str weights n core_idx
       lhs rhs tens_core left_tang_core =
     (if core_idx < n - 1 then
        bindE (get_acc lhs core_idx) (\<lambda>lhs_here.
        bindE (get_acc rhs (core_idx + 1)) (\<lambda>rhs_next.
        bindE (tf_einsum (''sad,sd'' @ mode_str @ ''b,sbc->sa'' @ mode_str @ ''c'')
                 [lhs_here, tens_core, rhs_next]) (\<lambda>common_term.
        bindE (tf_einsum (''a'' @ mode_str @ ''c,b'' @ another_mode_str @ ''c->a'' @ mode_str
                            @ ''b'' @ another_mode_str)
                 [left_tang_core, left_tang_core]) (\<lambda>u_proj.
        (case weights of
           None \<Rightarrow>
             bindE (tf_reduce_sum0 common_term) (\<lambda>proj_core.
             bindE (tf_einsum (''a'' @ mode_str @ ''b'' @ another_mode_str @ '',sa'' @ mode_str
                                 @ ''d->b'' @ another_mode_str @ ''d'')
                      [u_proj, common_term]) (\<lambda>gauge.
             tf_sub proj_core gauge))
         | Some w \<Rightarrow>
             bindE (tf_einsum (''sa'' @ mode_str @ ''b,s'' @ output_batch_str @ ''->''
                                 @ output_batch_str @ ''a'' @ mode_str @ ''b'')
                      [common_term, w]) (\<lambda>proj_core.
             bindE (tf_einsum (''a'' @ mode_str @ ''b'' @ another_mode_str @ '',sa'' @ mode_str
                                 @ ''d,s'' @ output_batch_str @ ''->'' @ output_batch_str
                                 @ ''b'' @ another_mode_str @ ''d'')
                      [u_proj, common_term, w]) (\<lambda>gauge.
             tf_sub proj_core gauge)))))))
      else if core_idx = n - 1 then
        bindE (get_acc lhs core_idx) (\<lambda>lhs_here.
        (case weights of
           None \<Rightarrow>
             tf_einsum (''sab,sb'' @ mode_str @ ''c->a'' @ mode_str @ ''c'') [lhs_here, tens_core]
         | Some w \<Rightarrow>
             tf_einsum (''sab,sb'' @ mode_str @ ''c,s'' @ output_batch_str @ ''->''
                          @ output_batch_str @ ''a'' @ mode_str @ ''c'')
               [lhs_here, tens_core, w]))
      else Inl (SubstrateError ''proj_core''))"

definition project_sum :: "(tt \<Rightarrow> bool \<Rightarrow> tt) \<Rightarrow> tt \<Rightarrow> tt \<Rightarrow> tensor option \<Rightarrow> error + tt" where
  "project_sum orth what0 where weights =
     (let what = expand_batch_dim what0 in
      case check_args what where of
        Some e \<Rightarrow> Inl e
      | None \<Rightarrow>
          let left_tangent_space_tens = orth where True;
              right_tangent_space_tens = orth left_tangent_space_tens False;
              n = ndims where;
              raw_shape' = lazy_raw_shape where;
              batch = lazy_batch_size what;
              right_tangent_tt_ranks = lazy_tt_ranks right_tangent_space_tens;
              left_tangent_tt_ranks = lazy_tt_ranks left_tangent_space_tens;
              mode_str = (if is_tt_matrix where then ''ij'' else ''i'');
              another_mode_str = (if is_tt_matrix where then ''rt'' else ''r'');
              output_is_batch =
                (case weights of None \<Rightarrow> False
                 | Some w \<Rightarrow> length (dims w) > 1 \<and> dims w ! 1 > 1);
              output_batch_str = (if output_is_batch then ''o'' else []);
              right_rank_dim =
                (if is_tt_matrix where then 3 else 2) + (if output_is_batch then 1 else 0);
              left_rank_dim = (if output_is_batch then 1 else 0);
              output_batch_size = (case weights of None \<Rightarrow> 0 | Some w \<Rightarrow> dim_at w 1)
          in
          bindE (prepare_rhs mode_str what right_tangent_space_tens n batch) (\<lambda>rhs.
          bindE (prepare_lhs mode_str what left_tangent_space_tens n batch) (\<lambda>lhs.
          bindE (mapE (\<lambda>core_idx.
                   bindE (py_nth (tt_cores what) core_idx) (\<lambda>tens_core.
                   bindE (py_nth (tt_cores left_tangent_space_tens) core_idx) (\<lambda>left_tang_core.
                   bindE (py_nth (tt_cores right_tangent_space_tens) core_idx) (\<lambda>right_tang_core.
                   bindE (project_sum_proj_core mode_str another_mode_str output_batch_str
                            weights n core_idx lhs rhs tens_core left_tang_core) (\<lambda>proj_core.
                   assemble_core output_is_batch (is_tt_matrix where) output_batch_size
                     right_rank_dim left_rank_dim n raw_shape'
                     right_tangent_tt_ranks left_tangent_tt_ranks
                     core_idx proj_core left_tang_core right_tang_core)))))
                 [0..<n]) (\<lambda>res_cores_list.
          Inr (if output_is_batch
               then TensorTrainBatch res_cores_list (get_raw_shape where) (dtype where)
                      output_batch_size
               else TensorTrain res_cores_list (get_raw_shape where) (dtype where))))))"

subsection \<open>\<^verbatim>\<open>project\<close>\<close>

definition project_proj_core ::
  "string \<Rightarrow> bool \<Rightarrow> nat \<Rightarrow> nat \<Rightarrow> tensor option list \<Rightarrow> tensor option list
     \<Rightarrow> tensor \<Rightarrow> tensor \<Rightarrow> error + tensor" where
  "project_proj_core mode_str output_is_batch n core_idx lhs rhs tens_core left_tang_core =
     (if core_idx < n - 1 then
        bindE (get_acc lhs core_idx) (\<lambda>lhs_here.
        bindE (tf_einsum (''sab,sb'' @ mode_str @ ''c->sa'' @ mode_str @ ''c'')
                 [lhs_here, tens_core]) (\<lambda>proj_core.
        bindE (get_acc lhs (core_idx + 1)) (\<lambda>lhs_next.
        bindE (tf_einsum (''a'' @ mode_str @ ''b,sbc->sa'' @ mode_str @ ''c'')
                 [left_tang_core, lhs_next]) (\<lambda>gauge.
        bindE (tf_sub proj_core gauge) (\<lambda>proj_core.
        bindE (get_acc rhs (core_idx + 1)) (\<lambda>rhs_next.
        tf_einsum (if output_is_batch
                   then ''sa'' @ mode_str @ ''b,sbc->sa'' @ mode_str @ ''c''
                   else ''sa'' @ mode_str @ ''b,sbc->a'' @ mode_str @ ''c'')
          [proj_core, rhs_next]))))))
      else if core_idx = n - 1 then
        bindE (get_acc lhs core_idx) (\<lambda>lhs_here.
        tf_einsum (if output_is_batch
                   then ''sab,sb'' @ mode_str @ ''c->sa'' @ mode_str @ ''c''
                   else ''sab,sb'' @ mode_str @ ''c->a'' @ mode_str @ ''c'')
          [lhs_here, tens_core])
      else Inl (SubstrateError ''proj_core''))"

definition project :: "(tt \<Rightarrow> bool \<Rightarrow> tt) \<Rightarrow> tt \<Rightarrow> tt \<Rightarrow> error + tt" where
  "project orth what0 where =
     (case check_args what0 where of
        Some e \<Rightarrow> Inl e
      | None \<Rightarrow>
          let left_tangent_space_tens = orth where True;
              right_tangent_space_tens = orth left_tangent_space_tens False;
              n = ndims where;
              raw_shape' = lazy_raw_shape where;
              batch = lazy_batch_size what0;
              right_tangent_tt_ranks = lazy_tt_ranks right_tangent_space_tens;
              left_tangent_tt_ranks = lazy_tt_ranks left_tangent_space_tens;
              mode_str = (if is_tt_matrix where then ''ij'' else ''i'');
              output_is_batch = is_TensorTrainBatch what0;
              right_rank_dim =
                (if is_tt_matrix where then 3 else 2) + (if output_is_batch then 1 else 0);
              left_rank_dim = (if output_is_batch then 1 else 0);
              output_batch_size = (case batch_size what0 of None \<Rightarrow> 0 | Some b \<Rightarrow> b);
              what = expand_batch_dim what0
          in
          bindE (prepare_rhs mode_str what right_tangent_space_tens n batch) (\<lambda>rhs.
          bindE (prepare_lhs mode_str what left_tangent_space_tens n batch) (\<lambda>lhs.
          bindE (mapE (\<lambda>core_idx.
                   bindE (py_nth (tt_cores what) core_idx) (\<lambda>tens_core.
                   bindE (py_nth (tt_cores left_tangent_space_tens) core_idx) (\<lambda>left_tang_core.
                   bindE (py_nth (tt_cores right_tangent_space_tens) core_idx) (\<lambda>right_tang_core.
                   bindE (project_proj_core mode_str output_is_batch n core_idx lhs rhs
                            tens_core left_tang_core) (\<lambda>proj_core.
                   assemble_core output_is_batch (is_tt_matrix where) output_batch_size
                     right_rank_dim left_rank_dim n raw_shape'
                     right_tangent_tt_ranks left_tangent_tt_ranks
                     core_idx proj_core left_tang_core right_tang_core)))))
                 [0..<n]) (\<lambda>res_cores_list.
          Inr (if output_is_batch
               then TensorTrainBatch res_cores_list (get_raw_shape where) (dtype where)
                      output_batch_size
               else TensorTrain res_cores_list (get_raw_shape where) (dtype where))))))"

subsection \<open>\<^verbatim>\<open>project_matmul\<close>\<close>

definition matmul_rhs_step ::
  "tt \<Rightarrow> tt \<Rightarrow> tt \<Rightarrow> nat \<Rightarrow> tensor option list \<Rightarrow> error + tensor option list" where
  "matmul_rhs_step what right_tangent_space_tens matrix core_idx rhs =
     bindE (py_nth (tt_cores what) core_idx) (\<lambda>tens_core.
     bindE (py_nth (tt_cores right_tangent_space_tens) core_idx) (\<lambda>right_tang_core.
     bindE (py_nth (tt_cores matrix) core_idx) (\<lambda>matrix_core.
     bindE (get_acc rhs (core_idx + 1)) (\<lambda>rhs_next.
     bindE (tf_einsum ''bije,cikf,sdef,sajkd->sabc''
              [matrix_core, right_tang_core, rhs_next, tens_core]) (\<lambda>t.
     Inr (rhs[core_idx := Some t]))))))"

definition matmul_prepare_rhs :: "tt \<Rightarrow> tt \<Rightarrow> tt \<Rightarrow> nat \<Rightarrow> nat \<Rightarrow> error + tensor option list" where
  "matmul_prepare_rhs what right_tangent_space_tens matrix n batch =
     foldE (matmul_rhs_step what right_tangent_space_tens matrix) (rev [1..<n])
       ((replicate (n + 1) None)[n := Some (tf_ones [batch, 1, 1, 1])])"

definition matmul_lhs_step ::
  "tt \<Rightarrow> tt \<Rightarrow> tt \<Rightarrow> nat \<Rightarrow> tensor option list \<Rightarrow> error + tensor option list" where
  "matmul_lhs_step what left_tangent_space_tens matrix core_idx lhs =
     bindE (py_nth (tt_cores what) core_idx) (\<lambda>tens_core.
     bindE (py_nth (tt_cores left_tangent_space_tens) core_idx) (\<lambda>left_tang_core.
     bindE (py_nth (tt_cores matrix) core_idx) (\<lambda>matrix_core.
     bindE (get_acc lhs core_idx) (\<lambda>lhs_prev.
     bindE (tf_einsum ''bije,aikd,sabc,scjkf->sdef''
              [matrix_core, left_tang_core, lhs_prev, tens_core]) (\<lambda>t.
     Inr (lhs[core_idx + 1 := Some t]))))))"

definition matmul_prepare_lhs :: "tt \<Rightarrow> tt \<Rightarrow> tt \<Rightarrow> nat \<Rightarrow> nat \<Rightarrow> error + tensor option list" where
  "matmul_prepare_lhs what left_tangent_space_tens matrix n batch =
     foldE (matmul_lhs_step what left_tangent_space_tens matrix) [0..<n - 1]
       ((replicate (n + 1) None)[0 := Some (tf_ones [batch, 1, 1, 1])])"

definition matmul_proj_core ::
  "nat \<Rightarrow> nat \<Rightarrow> tensor option list \<Rightarrow> tensor option list
     \<Rightarrow> tensor \<Rightarrow> tensor \<Rightarrow> tensor \<Rightarrow> error + tensor" where
  "matmul_proj_core n core_idx lhs rhs tens_core matrix_core left_tang_core =
     (if core_idx < n - 1 then
        bindE (get_acc lhs core_idx) (\<lambda>lhs_here.
        bindE (tf_einsum ''scjke,sabc,bijd->saikde''
                 [tens_core, lhs_here, matrix_core]) (\<lambda>proj_core.
        bindE (get_acc lhs (core_idx + 1)) (\<lambda>lhs_next.
        bindE (tf_einsum ''aikb,sbcd->saikcd'' [left_tang_core, lhs_next]) (\<lambda>gauge.
        bindE (tf_sub proj_core gauge) (\<lambda>proj_core.
        bindE (get_acc rhs (core_idx + 1)) (\<lambda>rhs_next.
        tf_einsum ''saikcb,sbcd->saikd'' [proj_core, rhs_next]))))))
      else if core_idx = n - 1 then
        bindE (get_acc lhs core_idx) (\<lambda>lhs_here.
        tf_einsum ''sabc,bijd,scjke->saike'' [lhs_here, matrix_core, tens_core])
      else Inl (SubstrateError ''proj_core''))"

definition project_matmul :: "(tt \<Rightarrow> bool \<Rightarrow> tt) \<Rightarrow> tt \<Rightarrow> tt \<Rightarrow> tt \<Rightarrow> error + tt" where
  "project_matmul orth what0 where matrix =
     (case check_args what0 where of
        Some e \<Rightarrow> Inl e
      | None \<Rightarrow>
          let left_tangent_space_tens = orth where True;
              right_tangent_space_tens = orth left_tangent_space_tens False;
              n = ndims where;
              raw_shape' = lazy_raw_shape where;
              batch = lazy_batch_size what0;
              right_tangent_tt_ranks = lazy_tt_ranks right_tangent_space_tens;
              left_tangent_tt_ranks = lazy_tt_ranks left_tangent_space_tens;
              output_is_batch = is_TensorTrainBatch what0;
              right_rank_dim = 3 + (if output_is_batch then 1 else 0);
              left_rank_dim = (if output_is_batch then 1 else 0);
              output_batch_size = (case batch_size what0 of None \<Rightarrow> 0 | Some b \<Rightarrow> b);
              what = expand_batch_dim what0
          in
          bindE (matmul_prepare_rhs what right_tangent_space_tens matrix n batch) (\<lambda>rhs.
          bindE (matmul_prepare_lhs what left_tangent_space_tens matrix n batch) (\<lambda>lhs.
          bindE (mapE (\<lambda>core_idx.
                   bindE (py_nth (tt_cores what) core_idx) (\<lambda>tens_core.
                   bindE (py_nth (tt_cores matrix) core_idx) (\<lambda>matrix_core.
                   bindE (py_nth (tt_cores left_tangent_space_tens) core_idx) (\<lambda>left_tang_core.
                   bindE (py_nth (tt_cores right_tangent_space_tens) core_idx) (\<lambda>right_tang_core.
                   bindE (matmul_proj_core n core_idx lhs rhs tens_core matrix_core
                            left_tang_core) (\<lambda>proj_core.
                   assemble_core output_is_batch True output_batch_size
                     right_rank_dim left_rank_dim n raw_shape'
                     right_tangent_tt_ranks left_tangent_tt_ranks
                     core_idx proj_core left_tang_core right_tang_core))))))
                 [0..<n]) (\<lambda>res_cores_list.
          Inr (if output_is_batch
               then TensorTrainBatch res_cores_list (get_raw_shape where) (dtype where)
                      output_batch_size
               else TensorTrain res_cores_list (get_raw_shape where) (dtype where))))))"

subsection \<open>Full-tensor reconstruction\<close>

text \<open>
  Modelled from the spec: the reconstruction of the full tensor of a TT object is not
  among the sources. The entry at the mode indices \<open>ms\<close> (one index list per core: one
  index for a TT-tensor, two for a TT-matrix) is the product of the core slices, summed
  over the rank indices; \<open>pre\<close> is the batch index of a batch element, or empty.
\<close>

fun chain_at :: "nat list \<Rightarrow> tensor list \<Rightarrow> nat list list \<Rightarrow> nat \<Rightarrow> nat \<Rightarrow> real" where
  "chain_at pre [] [] a b = (if a = b then 1 else 0)"
| "chain_at pre (c # cs) (m # ms) a b =
     (\<Sum>r<dim_at c (length pre + length m + 1). elems c (pre @ a # m @ [r]) * chain_at pre cs ms r b)"
| "chain_at pre _ _ a b = 0"

definition full_at :: "tt \<Rightarrow> nat list list \<Rightarrow> real" where
  "full_at t ms = chain_at [] (tt_cores t) ms 0 0"

definition full_batch_at :: "tt \<Rightarrow> nat \<Rightarrow> nat list list \<Rightarrow> real" where
  "full_batch_at t s ms = chain_at [s] (tt_cores t) ms 0 0"

subsection \<open>Failures of the substrate\<close>

definition only_substrate :: "error + 'a \<Rightarrow> bool" where
  \<comment> \<open>the computation returned, or failed inside the array substrate\<close>
  "only_substrate r = (\<forall>e. r = Inl e \<longrightarrow> (\<exists>m. e = SubstrateError m))"

subsection \<open>Well-formed TT objects\<close>

text \<open>
  Modelled from the spec: the container is not among the sources. These are the
  invariants of a TT object in the data model: at least one core, one or two lists of
  mode sizes of one length, core \<open>k\<close> of shape \<open>(r\<^sub>k, modes\<^sub>k, r\<^sub>k\<^sub>+\<^sub>1)\<close> behind the batch
  axis, adjacent ranks that match, and boundary ranks \<open>r\<^sub>0 = r\<^sub>d = 1\<close>.
\<close>

definition mode_ok :: "string \<Rightarrow> nat list \<Rightarrow> bool" where
  "mode_ok mode_str ms = ((mode_str = ''i'' \<and> length ms = 1) \<or> (mode_str = ''ij'' \<and> length ms = 2))"

definition mode_sizes :: "tt \<Rightarrow> nat \<Rightarrow> nat list" where
  "mode_sizes t k = map (\<lambda>row. row ! k) (raw_shape t)"

definition batch_prefix :: "tt \<Rightarrow> nat list" where
  "batch_prefix t = (case batch_size t of None \<Rightarrow> [] | Some n \<Rightarrow> [n])"

definition valid_tt :: "tt \<Rightarrow> bool" where
  "valid_tt t =
     (let d = ndims t; rs = lazy_tt_ranks t in
      1 \<le> d \<and> (length (raw_shape t) = 1 \<or> length (raw_shape t) = 2)
      \<and> list_all (\<lambda>row. length row = d) (raw_shape t)
      \<and> rs ! 0 = 1 \<and> rs ! d = 1
      \<and> list_all (\<lambda>k. dims (tt_cores t ! k)
                         = batch_prefix t @ [rs ! k] @ mode_sizes t k @ [rs ! (k + 1)]) [0..<d])"

definition modes_ok :: "string \<Rightarrow> string \<Rightarrow> nat list \<Rightarrow> bool" where
  "modes_ok mode_str another_mode_str ms =
     ((mode_str = ''i'' \<and> another_mode_str = ''r'' \<and> length ms = 1)
      \<or> (mode_str = ''ij'' \<and> another_mode_str = ''rt'' \<and> length ms = 2))"

definition out_ok :: "string \<Rightarrow> nat list \<Rightarrow> bool" where
  "out_ok output_batch_str os =
     ((output_batch_str = [] \<and> os = []) \<or> (output_batch_str = ''o'' \<and> length os = 1))"

subsection \<open>Valid inputs\<close>

text \<open>
  Modelled from the spec: the contract of the orthogonal basis provider. Both
  orthogonalisations of the manifold point are single TT objects of the raw shape of
  the point; their internal ranks (the tangent ranks) may differ from the point's.
\<close>

definition orth_ok :: "(tt \<Rightarrow> bool \<Rightarrow> tt) \<Rightarrow> tt \<Rightarrow> bool" where
  "orth_ok orth where =
     (let left = orth where True; right = orth left False in
      valid_tt left \<and> valid_tt right \<and> is_TensorTrain left \<and> is_TensorTrain right
      \<and> raw_shape left = raw_shape where \<and> raw_shape right = raw_shape where)"

text \<open>A valid pair: two well-formed TT objects that pass the argument checks.\<close>

definition projection_inputs_ok :: "(tt \<Rightarrow> bool \<Rightarrow> tt) \<Rightarrow> tt \<Rightarrow> tt \<Rightarrow> bool" where
  "projection_inputs_ok orth what where =
     (valid_tt what \<and> valid_tt where \<and> check_args what where = None \<and> orth_ok orth where)"

text \<open>Weights: none, one weight per batch element, or \<open>O > 1\<close> weights per batch element.\<close>

definition weights_ok :: "tt \<Rightarrow> tensor option \<Rightarrow> bool" where
  "weights_ok what weights =
     (case weights of
        None \<Rightarrow> True
      | Some w \<Rightarrow> dims w = [lazy_batch_size what]
                  \<or> (length (dims w) = 2 \<and> dims w ! 0 = lazy_batch_size what \<and> dims w ! 1 > 1))"

text \<open>
  For \<open>project_matmul\<close>: \<open>what\<close> is a batch of TT-matrices, \<open>where\<close> a TT-matrix, and
  \<open>matrix\<close> a single square TT-matrix on the row modes of \<open>where\<close>.
\<close>

definition matmul_inputs_ok :: "(tt \<Rightarrow> bool \<Rightarrow> tt) \<Rightarrow> tt \<Rightarrow> tt \<Rightarrow> tt \<Rightarrow> bool" where
  "matmul_inputs_ok orth what where matrix =
     (projection_inputs_ok orth what where \<and> is_TensorTrainBatch what \<and> is_tt_matrix where
      \<and> valid_tt matrix \<and> is_TensorTrain matrix
      \<and> raw_shape matrix = [raw_shape where ! 0, raw_shape where ! 0])"

subsection \<open>The shape of the output\<close>

definition output_batch :: "tensor option \<Rightarrow> nat option" where
  \<comment> \<open>the batch size of the output of \<open>project_sum\<close>, as its code derives it from the weights\<close>
  "output_batch weights =
     (case weights of
        None \<Rightarrow> None
      | Some w \<Rightarrow> if length (dims w) > 1 \<and> dims w ! 1 > 1 then Some (dims w ! 1) else None)"

definition option_prefix :: "nat option \<Rightarrow> nat list" where
  "option_prefix b = (case b of None \<Rightarrow> [] | Some n \<Rightarrow> [n])"

definition projected_dims :: "nat list \<Rightarrow> tt \<Rightarrow> nat list \<Rightarrow> nat list \<Rightarrow> nat \<Rightarrow> nat list" where
  \<comment> \<open>the shape of output core \<open>k\<close>: batch axis, leading rank, mode sizes, trailing rank\<close>
  "projected_dims bp where rr lr k =
     bp @ (if k = 0 then 1 else rr ! k + lr ! k) # mode_sizes where k
        @ [if k \<noteq> 0 \<and> k = ndims where - 1 then 1 else rr ! (k + 1) + lr ! (k + 1)]"

subsection \<open>Reading a result\<close>

definition result_ranks :: "error + tt \<Rightarrow> nat list" where
  "result_ranks r = (case r of Inl e \<Rightarrow> [] | Inr t \<Rightarrow> lazy_tt_ranks t)"


definition result_raw_shape :: "error + tt \<Rightarrow> nat list list" where
  "result_raw_shape r = (case r of Inl e \<Rightarrow> [] | Inr t \<Rightarrow> get_raw_shape t)"



definition core_mode_sizes :: "tt \<Rightarrow> nat \<Rightarrow> nat list" where
  \<comment> \<open>the axes of core \<open>k\<close> between its two rank axes\<close>
  "core_mode_sizes t k = butlast (drop (left_tt_rank_dim t + 1) (dims (tt_cores t ! k)))"

subsection \<open>The algebra of the projection\<close>

text \<open>
  The values that the contractions compute are stated over the cores as functions
  \<open>core k a m b\<close> (rank index, mode index list, rank index), with rank functions and the
  mode sizes \<open>sh k\<close>. \<open>rch\<close> and \<open>lch\<close> are the products of the cores to the right and to the
  left of a cut, \<open>LHv\<close> and \<open>RHn\<close> the accumulators \<open>lhs\<close> and \<open>rhs\<close> of the two sweeps,
  \<open>CTv\<close> the common term of \<open>project_sum\<close>, and \<open>tangent_part\<close> what the gauge step leaves
  of it. \<open>tangent_core\<close> are the cores of the projection of a full tensor \<open>F\<close>, and
  \<open>projection_of\<close> is its full tensor.
\<close>

definition mode_idx :: "nat list \<Rightarrow> nat list set" where
  \<comment> \<open>the in-range multi-indices of an array of shape \<open>ms\<close>\<close>
  "mode_idx ms = listset (map (\<lambda>n. {..<n}) ms)"

definition multi_idx :: "nat list list \<Rightarrow> nat list list set" where
  \<comment> \<open>one in-range mode index per core\<close>
  "multi_idx sh = listset (map mode_idx sh)"

type_synonym cores = "nat \<Rightarrow> nat \<Rightarrow> nat list \<Rightarrow> nat \<Rightarrow> real"

fun rch :: "cores \<Rightarrow> (nat \<Rightarrow> nat) \<Rightarrow> nat \<Rightarrow> nat list list \<Rightarrow> nat \<Rightarrow> real" where
  "rch G r k [] c = (if c = 0 then 1 else 0)"
| "rch G r k (m # j) c = (\<Sum>c'<r (Suc k). G k c m c' * rch G r (Suc k) j c')"

fun lchr :: "cores \<Rightarrow> (nat \<Rightarrow> nat) \<Rightarrow> nat list list \<Rightarrow> nat \<Rightarrow> real" where
  "lchr G r [] a = (if a = 0 then 1 else 0)"
| "lchr G r (m # jr) a = (\<Sum>a'<r (length jr). lchr G r jr a' * G (length jr) a' m a)"

definition lch :: "cores \<Rightarrow> (nat \<Rightarrow> nat) \<Rightarrow> nat list list \<Rightarrow> nat \<Rightarrow> real" where
  "lch G r j a = lchr G r (rev j) a"

fun LHv :: "cores \<Rightarrow> (nat \<Rightarrow> nat) \<Rightarrow> cores \<Rightarrow> (nat \<Rightarrow> nat) \<Rightarrow> (nat \<Rightarrow> nat list)
    \<Rightarrow> nat \<Rightarrow> nat \<Rightarrow> nat \<Rightarrow> real" where
  "LHv U lr X xr sh 0 a b = 1"
| "LHv U lr X xr sh (Suc k) c d =
     (\<Sum>a<lr k. \<Sum>b<xr k. \<Sum>m\<in>mode_idx (sh k). LHv U lr X xr sh k a b * U k a m c * X k b m d)"

fun RHn :: "cores \<Rightarrow> (nat \<Rightarrow> nat) \<Rightarrow> cores \<Rightarrow> (nat \<Rightarrow> nat) \<Rightarrow> (nat \<Rightarrow> nat list)
    \<Rightarrow> nat \<Rightarrow> nat \<Rightarrow> nat \<Rightarrow> nat \<Rightarrow> real" where
  "RHn V rr X xr sh 0 k b c = 1"
| "RHn V rr X xr sh (Suc n) k b c =
     (\<Sum>m\<in>mode_idx (sh k). \<Sum>b'<xr (Suc k). \<Sum>d<rr (Suc k).
        X k b m b' * RHn V rr X xr sh n (Suc k) b' d * V k c m d)"

definition CTv :: "cores \<Rightarrow> (nat \<Rightarrow> nat) \<Rightarrow> cores \<Rightarrow> (nat \<Rightarrow> nat) \<Rightarrow> cores \<Rightarrow> (nat \<Rightarrow> nat)
    \<Rightarrow> (nat \<Rightarrow> nat list) \<Rightarrow> nat \<Rightarrow> nat \<Rightarrow> nat \<Rightarrow> nat list \<Rightarrow> nat \<Rightarrow> real" where
  \<comment> \<open>the entries of \<open>common_term\<close> at core \<open>k\<close> of \<open>d\<close>, for one batch element\<close>
  "CTv U lr V rr X xr sh d k a m c =
     (\<Sum>d'<xr k. \<Sum>b<xr (Suc k).
        LHv U lr X xr sh k a d' * X k d' m b * RHn V rr X xr sh (d - Suc k) (Suc k) b c)"

definition LTv :: "cores \<Rightarrow> (nat \<Rightarrow> nat) \<Rightarrow> cores \<Rightarrow> (nat \<Rightarrow> nat)
    \<Rightarrow> (nat \<Rightarrow> nat list) \<Rightarrow> nat \<Rightarrow> nat \<Rightarrow> nat list \<Rightarrow> nat \<Rightarrow> real" where
  \<comment> \<open>the entries of the last projection core, for one batch element\<close>
  "LTv U lr X xr sh k a m c = (\<Sum>b<xr k. LHv U lr X xr sh k a b * X k b m c)"

definition tangent_part :: "cores \<Rightarrow> (nat \<Rightarrow> nat) \<Rightarrow> (nat \<Rightarrow> nat list) \<Rightarrow> nat
    \<Rightarrow> (nat \<Rightarrow> nat list \<Rightarrow> nat \<Rightarrow> real) \<Rightarrow> nat \<Rightarrow> nat list \<Rightarrow> nat \<Rightarrow> real" where
  \<comment> \<open>\<open>C - U U\<^sup>T C\<close>: what the gauge subtraction leaves of \<open>C\<close> at core \<open>k\<close>\<close>
  "tangent_part U lr sh k C a m c =
     C a m c - (\<Sum>a'<lr (Suc k). \<Sum>a''<lr k. \<Sum>m'\<in>mode_idx (sh k).
                  U k a m a' * U k a'' m' a' * C a'' m' c)"

definition sandwich :: "cores \<Rightarrow> (nat \<Rightarrow> nat) \<Rightarrow> cores \<Rightarrow> (nat \<Rightarrow> nat) \<Rightarrow> (nat \<Rightarrow> nat list)
    \<Rightarrow> nat \<Rightarrow> nat \<Rightarrow> (nat list list \<Rightarrow> real) \<Rightarrow> nat \<Rightarrow> nat list \<Rightarrow> nat \<Rightarrow> real" where
  \<comment> \<open>a full tensor \<open>F\<close> contracted with the left chain of \<open>U\<close> before core \<open>k\<close> and the
      right chain of \<open>V\<close> after it\<close>
  "sandwich U lr V rr sh d k F a m c =
     (\<Sum>j1\<in>multi_idx (map sh [0..<k]). \<Sum>j2\<in>multi_idx (map sh [Suc k..<d]).
        lch U lr j1 a * F (j1 @ m # j2) * rch V rr (Suc k) j2 c)"

definition proj_entry :: "cores \<Rightarrow> (nat \<Rightarrow> nat) \<Rightarrow> cores \<Rightarrow> (nat \<Rightarrow> nat) \<Rightarrow> (nat \<Rightarrow> nat list)
    \<Rightarrow> nat \<Rightarrow> nat \<Rightarrow> (nat list list \<Rightarrow> real) \<Rightarrow> nat \<Rightarrow> nat list \<Rightarrow> nat \<Rightarrow> real" where
  \<comment> \<open>the projection core at index \<open>k\<close> of \<open>d\<close> of the full tensor \<open>F\<close>\<close>
  "proj_entry U lr V rr sh d k F a m c =
     (if Suc k < d then tangent_part U lr sh k (sandwich U lr V rr sh d k F) a m c
      else sandwich U lr V rr sh d k F a m c)"

definition acore :: "nat list \<Rightarrow> tensor list \<Rightarrow> cores" where
  \<comment> \<open>the entries of the cores of a TT object, behind the batch index \<open>pre\<close>\<close>
  "acore pre cs k a m b = elems (cs ! k) (pre @ a # m @ [b])"

definition common_sum :: "cores \<Rightarrow> (nat \<Rightarrow> nat) \<Rightarrow> cores \<Rightarrow> (nat \<Rightarrow> nat) \<Rightarrow> (nat \<Rightarrow> cores) \<Rightarrow> (nat \<Rightarrow> nat)
    \<Rightarrow> (nat \<Rightarrow> nat list) \<Rightarrow> nat \<Rightarrow> nat \<Rightarrow> nat \<Rightarrow> (nat \<Rightarrow> real) \<Rightarrow> nat \<Rightarrow> nat list \<Rightarrow> nat \<Rightarrow> real" where
  \<comment> \<open>the weighted sum over the batch of the common terms at core \<open>k\<close>\<close>
  "common_sum U lr V rr X xr sh d k s w a m c =
     (\<Sum>s'<s. w s' * CTv U lr V rr (X s') xr sh d k a m c)"

definition block_core :: "(nat \<Rightarrow> nat) \<Rightarrow> (nat \<Rightarrow> nat) \<Rightarrow> nat \<Rightarrow> cores \<Rightarrow> cores \<Rightarrow> cores \<Rightarrow> cores" where
  \<comment> \<open>the output core \<open>[P | U]\<close>, \<open>[V ; P]\<close> or \<open>[[V, 0], [P, U]]\<close>\<close>
  "block_core lr rr d P U V k a m c =
     (if k = 0 then (if c < rr 1 then P 0 a m c else U 0 a m (c - rr 1))
      else if Suc k = d then (if a < rr k then V k a m c else P k (a - rr k) m c)
      else if a < rr k then (if c < rr (Suc k) then V k a m c else 0)
      else (if c < rr (Suc k) then P k (a - rr k) m c else U k (a - rr k) m (c - rr (Suc k))))"

definition tangent_core :: "cores \<Rightarrow> (nat \<Rightarrow> nat) \<Rightarrow> cores \<Rightarrow> (nat \<Rightarrow> nat) \<Rightarrow> (nat \<Rightarrow> nat list)
    \<Rightarrow> nat \<Rightarrow> (nat list list \<Rightarrow> real) \<Rightarrow> cores" where
  \<comment> \<open>the cores of the projection of the full tensor \<open>F\<close>\<close>
  "tangent_core U lr V rr sh d F =
     block_core lr rr d (\<lambda>k. proj_entry U lr V rr sh d k F) U V"

definition tangent_rank :: "(nat \<Rightarrow> nat) \<Rightarrow> (nat \<Rightarrow> nat) \<Rightarrow> nat \<Rightarrow> nat \<Rightarrow> nat" where
  \<comment> \<open>the TT-ranks of the projection\<close>
  "tangent_rank lr rr d k = (if k = 0 then lr 0 else if k = d \<and> 1 < d then rr d else rr k + lr k)"

definition full_elem :: "tt \<Rightarrow> nat \<Rightarrow> nat list list \<Rightarrow> real" where
  \<comment> \<open>the full tensor of element \<open>s\<close> of a batch, or of a single TT object\<close>
  "full_elem t s j = (case batch_size t of None \<Rightarrow> full_at t j | Some b \<Rightarrow> full_batch_at t s j)"

definition weight_at :: "tensor option \<Rightarrow> nat list \<Rightarrow> nat \<Rightarrow> real" where
  \<comment> \<open>the weight of batch element \<open>s\<close> in the output element \<open>oi\<close> (empty for a single output)\<close>
  "weight_at weights oi s = (case weights of None \<Rightarrow> 1 | Some w \<Rightarrow> elems w (s # oi))"

definition weighted_sum :: "tt \<Rightarrow> tensor option \<Rightarrow> nat list \<Rightarrow> nat list list \<Rightarrow> real" where
  \<comment> \<open>the full tensor of the weighted sum of the elements of a batch\<close>
  "weighted_sum what weights oi j =
     (\<Sum>s<lazy_batch_size what. weight_at weights oi s * full_elem what s j)"

definition tangent_cores_at :: "(tt \<Rightarrow> bool \<Rightarrow> tt) \<Rightarrow> tt \<Rightarrow> (nat list list \<Rightarrow> real) \<Rightarrow> cores" where
  \<comment> \<open>the cores of the projection of the full tensor \<open>F\<close> on the tangent space at \<open>where\<close>\<close>
  "tangent_cores_at orth where F =
     (let left = orth where True; right = orth left False in
      tangent_core (acore [] (tt_cores left)) ((!) (lazy_tt_ranks left))
        (acore [] (tt_cores right)) ((!) (lazy_tt_ranks right)) (mode_sizes where) (ndims where) F)"

definition tangent_ranks_at :: "(tt \<Rightarrow> bool \<Rightarrow> tt) \<Rightarrow> tt \<Rightarrow> nat \<Rightarrow> nat" where
  "tangent_ranks_at orth where =
     (let left = orth where True; right = orth left False in
      tangent_rank ((!) (lazy_tt_ranks left)) ((!) (lazy_tt_ranks right)) (ndims where))"




subsection \<open>The gauge step\<close>

definition common_term_at :: "(tt \<Rightarrow> bool \<Rightarrow> tt) \<Rightarrow> tt \<Rightarrow> (nat list list \<Rightarrow> real) \<Rightarrow> nat
    \<Rightarrow> nat \<Rightarrow> nat list \<Rightarrow> nat \<Rightarrow> real" where
  \<comment> \<open>the projection core at index \<open>k\<close> before the gauge step, for the full tensor \<open>F\<close>\<close>
  "common_term_at orth where F k =
     (let left = orth where True; right = orth left False in
      sandwich (acore [] (tt_cores left)) ((!) (lazy_tt_ranks left))
        (acore [] (tt_cores right)) ((!) (lazy_tt_ranks right)) (mode_sizes where) (ndims where) k F)"

definition gauge_at :: "(tt \<Rightarrow> bool \<Rightarrow> tt) \<Rightarrow> tt \<Rightarrow> nat \<Rightarrow> (nat \<Rightarrow> nat list \<Rightarrow> nat \<Rightarrow> real)
    \<Rightarrow> nat \<Rightarrow> nat list \<Rightarrow> nat \<Rightarrow> real" where
  \<comment> \<open>the gauge step at index \<open>k\<close>: \<open>C\<close> minus its component in the span of the
      left-orthogonal core, \<open>C - U\<^sub>k U\<^sub>k\<^sup>T C\<close>\<close>
  "gauge_at orth where k C =
     (let left = orth where True in
      tangent_part (acore [] (tt_cores left)) ((!) (lazy_tt_ranks left)) (mode_sizes where) k C)"

definition proj_block_row :: "(tt \<Rightarrow> bool \<Rightarrow> tt) \<Rightarrow> tt \<Rightarrow> nat \<Rightarrow> nat \<Rightarrow> nat" where
  \<comment> \<open>the row of output core \<open>k\<close> that holds row \<open>a\<close> of the projection core: below the
      right tangent core, except in the first core\<close>
  "proj_block_row orth where k a =
     (if k = 0 then a else lazy_tt_ranks (orth (orth where True) False) ! k + a)"

definition result_core_entry :: "error + tt \<Rightarrow> nat \<Rightarrow> nat list \<Rightarrow> real" where
  "result_core_entry r k ix = (case r of Inl e \<Rightarrow> 0 | Inr t \<Rightarrow> elems (tt_cores t ! k) ix)"

subsection \<open>The orthogonalisation of the manifold point\<close>





section \<open>Example inputs\<close>

text \<open>
  A manifold point with two modes of size two and TT-ranks \<open>(1, 2, 1)\<close>, whose cores are
  identity matrices: it is left- and right-orthogonal as it stands, so that the
  identity is an orthogonalisation of it.
\<close>

definition ex_orth :: "tt \<Rightarrow> bool \<Rightarrow> tt" where
  "ex_orth t left_to_right = t"

definition ex_where :: tt where
  "ex_where = TensorTrain
     [\<lparr>dims = [1, 2, 2], elems = (\<lambda>ix. if ix ! 1 = ix ! 2 then 1 else 0)\<rparr>,
      \<lparr>dims = [2, 2, 1], elems = (\<lambda>ix. if ix ! 0 = ix ! 1 then 1 else 0)\<rparr>]
     [[2, 2]] (Plain Float32)"

definition ex_what :: tt where
  "ex_what = TensorTrain
     [\<lparr>dims = [1, 2, 1], elems = (\<lambda>ix. real (ix ! 1 + 1))\<rparr>,
      \<lparr>dims = [1, 2, 1], elems = (\<lambda>ix. real (ix ! 1 + 3))\<rparr>]
     [[2, 2]] (Plain Float32)"

definition ex_batch :: tt where
  "ex_batch = TensorTrainBatch
     [\<lparr>dims = [2, 1, 2, 1], elems = (\<lambda>ix. real (ix ! 2 + 1 + 10 * ix ! 0))\<rparr>,
      \<lparr>dims = [2, 1, 2, 1], elems = (\<lambda>ix. real (ix ! 2 + 3))\<rparr>]
     [[2, 2]] (Plain Float32) 2"

definition ex_what_23 :: tt where
  "ex_what_23 = TensorTrain
     [\<lparr>dims = [1, 2, 1], elems = (\<lambda>ix. 1)\<rparr>,
      \<lparr>dims = [1, 3, 1], elems = (\<lambda>ix. 1)\<rparr>]
     [[2, 3]] (Plain Float32)"



definition ex_mwhere :: tt where
  "ex_mwhere = TensorTrain
     [\<lparr>dims = [1, 2, 1, 2], elems = (\<lambda>ix. if ix ! 1 = ix ! 3 then 1 else 0)\<rparr>,
      \<lparr>dims = [2, 2, 1, 1], elems = (\<lambda>ix. if ix ! 0 = ix ! 1 then 1 else 0)\<rparr>]
     [[2, 2], [1, 1]] (Plain Float32)"


definition ex_mbatch :: tt where
  "ex_mbatch = TensorTrainBatch
     [\<lparr>dims = [2, 1, 2, 1, 1], elems = (\<lambda>ix. real (ix ! 2 + 1 + 10 * ix ! 0))\<rparr>,
      \<lparr>dims = [2, 1, 2, 1, 1], elems = (\<lambda>ix. real (ix ! 2 + 3))\<rparr>]
     [[2, 2], [1, 1]] (Plain Float32) 2"

definition ex_matrix :: tt where
  "ex_matrix = TensorTrain
     [\<lparr>dims = [1, 2, 2, 1], elems = (\<lambda>ix. if ix ! 1 = ix ! 2 then 1 else 0)\<rparr>,
      \<lparr>dims = [1, 2, 2, 1], elems = (\<lambda>ix. if ix ! 1 = ix ! 2 then 1 else 0)\<rparr>]
     [[2, 2], [2, 2]] (Plain Float32)"

definition ex_weights :: tensor where
  "ex_weights = \<lparr>dims = [2], elems = (\<lambda>ix. real (ix ! 0 + 1))\<rparr>"












section \<open>Lemmas\<close>

lemma bindE_Inr: "bindE (Inr x) f = f x"
  by (simp add: bindE_def)

lemma bindE_Inl: "bindE (Inl e) f = Inl e"
  by (simp add: bindE_def)

subsection \<open>Where a failure can come from\<close>

lemma os_Inr: "only_substrate (Inr x)"
  by (simp add: only_substrate_def)

lemma os_Inl: "only_substrate (Inl (SubstrateError m))"
  by (simp add: only_substrate_def)

lemma os_bindE:
  "only_substrate m \<Longrightarrow> (\<And>x. only_substrate (f x)) \<Longrightarrow> only_substrate (bindE m f)"
  by (auto simp: only_substrate_def bindE_def split: sum.splits)

lemma os_foldE: "(\<And>x s. only_substrate (f x s)) \<Longrightarrow> only_substrate (foldE f xs s)"
proof (induction xs arbitrary: s)
  case Nil
  then show ?case by (simp add: only_substrate_def)
next
  case (Cons x xs)
  show ?case
    using Cons.prems[of x s] Cons.IH[OF Cons.prems]
    by (auto simp: only_substrate_def split: sum.splits)
qed

lemma os_mapE: "(\<And>x. only_substrate (f x)) \<Longrightarrow> only_substrate (mapE f xs)"
proof (induction xs)
  case Nil
  then show ?case by (simp add: only_substrate_def)
next
  case (Cons x xs)
  show ?case
    using Cons.prems[of x] Cons.IH[OF Cons.prems]
    by (auto simp: only_substrate_def split: sum.splits)
qed

lemma os_einsum: "only_substrate (tf_einsum eq ins)"
  by (auto simp: tf_einsum_def Let_def only_substrate_def split: option.splits prod.splits)

lemma os_concat: "only_substrate (tf_concat a b ax)"
  by (auto simp: tf_concat_def only_substrate_def)

lemma os_tile: "only_substrate (tf_tile a m)"
  by (auto simp: tf_tile_def only_substrate_def)

lemma os_sub: "only_substrate (tf_sub a b)"
  by (auto simp: tf_sub_def only_substrate_def split: option.splits)

lemma os_reduce: "only_substrate (tf_reduce_sum0 a)"
  by (auto simp: tf_reduce_sum0_def only_substrate_def split: list.splits)

lemma os_nth: "only_substrate (py_nth xs i)"
  by (auto simp: py_nth_def only_substrate_def)

lemma os_get_acc: "only_substrate (get_acc xs i)"
  unfolding get_acc_def
  by (intro os_bindE os_nth) (auto simp: only_substrate_def split: option.splits)

lemma os_if: "only_substrate a \<Longrightarrow> only_substrate b \<Longrightarrow> only_substrate (if c then a else b)"
  by simp

lemma os_case_option:
  "only_substrate a \<Longrightarrow> (\<And>x. only_substrate (b x)) \<Longrightarrow> only_substrate (case_option a b c)"
  by (cases c) auto

lemmas os_intros = os_bindE os_foldE os_mapE os_einsum os_concat os_tile os_sub os_reduce
  os_nth os_get_acc os_if os_case_option os_Inr os_Inl

lemma os_assemble: "only_substrate (assemble_core a b c d e f g h i j k l m)"
  unfolding assemble_core_def extend_core_def Let_def by (intro os_intros)

lemma os_project_sum_proj_core: "only_substrate (project_sum_proj_core a b c d e f g h i j)"
  unfolding project_sum_proj_core_def by (intro os_intros)

lemma os_project_proj_core: "only_substrate (project_proj_core a b c d e f g h)"
  unfolding project_proj_core_def by (intro os_intros)

lemma os_matmul_proj_core: "only_substrate (matmul_proj_core a b c d e f g)"
  unfolding matmul_proj_core_def by (intro os_intros)

lemma os_prepare_rhs: "only_substrate (prepare_rhs a b c d e)"
  unfolding prepare_rhs_def rhs_step_def by (intro os_intros)

lemma os_prepare_lhs: "only_substrate (prepare_lhs a b c d e)"
  unfolding prepare_lhs_def lhs_step_def by (intro os_intros)

lemma os_matmul_prepare_rhs: "only_substrate (matmul_prepare_rhs a b c d e)"
  unfolding matmul_prepare_rhs_def matmul_rhs_step_def by (intro os_intros)

lemma os_matmul_prepare_lhs: "only_substrate (matmul_prepare_lhs a b c d e)"
  unfolding matmul_prepare_lhs_def matmul_lhs_step_def by (intro os_intros)

lemma check_args_expand: "check_args (expand_batch_dim what) where = check_args what where"
  by (simp add: check_args_def expand_batch_dim_def get_raw_shape_def split: option.splits)

lemma os_project:
  "check_args what where = None \<Longrightarrow> only_substrate (project orth what where)"
  unfolding project_def Let_def
  by (simp only: option.case,
      intro os_intros os_prepare_rhs os_prepare_lhs os_project_proj_core os_assemble)

lemma os_project_matmul:
  "check_args what where = None \<Longrightarrow> only_substrate (project_matmul orth what where matrix)"
  unfolding project_matmul_def Let_def
  by (simp only: option.case,
      intro os_intros os_matmul_prepare_rhs os_matmul_prepare_lhs os_matmul_proj_core os_assemble)

lemma os_project_sum:
  "check_args what where = None \<Longrightarrow> only_substrate (project_sum orth what where weights)"
  unfolding project_sum_def Let_def check_args_expand
  by (simp only: option.case,
      intro os_intros os_prepare_rhs os_prepare_lhs os_project_sum_proj_core os_assemble)

lemma project_check_fails:
  "check_args what where = Some e \<Longrightarrow> project orth what where = Inl e"
  by (simp add: project_def)

lemma project_sum_check_fails:
  "check_args what where = Some e \<Longrightarrow> project_sum orth what where weights = Inl e"
  by (simp add: project_sum_def check_args_expand)

lemma project_matmul_check_fails:
  "check_args what where = Some e \<Longrightarrow> project_matmul orth what where matrix = Inl e"
  by (simp add: project_matmul_def)

subsection \<open>Mode strings and loops\<close>

lemma mode_okE:
  assumes "mode_ok mode_str ms"
  obtains n where "mode_str = ''i''" "ms = [n]" | n m where "mode_str = ''ij''" "ms = [n, m]"
  using assms unfolding mode_ok_def
  by (auto simp: length_Suc_conv eval_nat_numeral)

lemma foldE_append:
  "foldE f (xs @ ys) s = bindE (foldE f xs s) (foldE f ys)"
  by (induction xs arbitrary: s) (auto simp: bindE_def split: sum.splits)

lemma foldE_down:
  assumes "length acc = n + 1" "m \<le> n" "acc ! m = Some tm" "P m tm"
    and step: "\<And>j acc' t'. 1 \<le> j \<Longrightarrow> j < m \<Longrightarrow> length acc' = n + 1 \<Longrightarrow> acc' ! (j + 1) = Some t'
        \<Longrightarrow> P (j + 1) t' \<Longrightarrow> \<exists>t. step j acc' = Inr (acc'[j := Some t]) \<and> P j t"
  shows "\<exists>acc'. foldE step (rev [1..<m]) acc = Inr acc' \<and> length acc' = n + 1
           \<and> (\<forall>j. m \<le> j \<longrightarrow> acc' ! j = acc ! j)
           \<and> (\<forall>j. 1 \<le> j \<and> j < m \<longrightarrow> (\<exists>t. acc' ! j = Some t \<and> P j t))"
  using assms
proof (induction m arbitrary: acc tm)
  case 0
  then show ?case by simp
next
  case (Suc m)
  show ?case
  proof (cases "m = 0")
    case True
    then show ?thesis using Suc.prems(1) by simp
  next
    case False
    then have m1: "1 \<le> m" by simp
    from Suc.prems(5)[of m acc tm] m1 Suc.prems(1,3,4)
    obtain t where t: "step m acc = Inr (acc[m := Some t])" "P m t" by auto
    let ?acc1 = "acc[m := Some t]"
    have len1: "length ?acc1 = n + 1" using Suc.prems(1) by simp
    have m_le: "m \<le> n" using Suc.prems(2) by simp
    have at_m: "?acc1 ! m = Some t" using Suc.prems(1,2) by simp
    have "\<exists>acc'. foldE step (rev [1..<m]) ?acc1 = Inr acc' \<and> length acc' = n + 1
           \<and> (\<forall>j. m \<le> j \<longrightarrow> acc' ! j = ?acc1 ! j)
           \<and> (\<forall>j. 1 \<le> j \<and> j < m \<longrightarrow> (\<exists>t. acc' ! j = Some t \<and> P j t))"
      by (rule Suc.IH[OF len1 m_le at_m t(2)]) (use Suc.prems(5) in auto)
    then obtain acc' where acc': "foldE step (rev [1..<m]) ?acc1 = Inr acc'" "length acc' = n + 1"
      "\<forall>j. m \<le> j \<longrightarrow> acc' ! j = ?acc1 ! j"
      "\<forall>j. 1 \<le> j \<and> j < m \<longrightarrow> (\<exists>t. acc' ! j = Some t \<and> P j t)" by blast
    have run: "foldE step (rev [1..<Suc m]) acc = Inr acc'"
      using m1 t(1) acc'(1) by simp
    have frame: "\<forall>j. Suc m \<le> j \<longrightarrow> acc' ! j = acc ! j"
      using acc'(3) by auto
    have inv: "\<forall>j. 1 \<le> j \<and> j < Suc m \<longrightarrow> (\<exists>t. acc' ! j = Some t \<and> P j t)"
    proof (intro allI impI)
      fix j assume j: "1 \<le> j \<and> j < Suc m"
      show "\<exists>t. acc' ! j = Some t \<and> P j t"
      proof (cases "j = m")
        case True
        then show ?thesis using acc'(3) at_m t(2) by auto
      next
        case False
        then show ?thesis using acc'(4) j by auto
      qed
    qed
    show ?thesis using run acc'(2) frame inv by blast
  qed
qed

lemma foldE_up:
  assumes "length acc = n + 1" "m \<le> n" "acc ! 0 = Some tz" "P 0 tz"
    and step: "\<And>j acc' t'. j < m \<Longrightarrow> length acc' = n + 1 \<Longrightarrow> acc' ! j = Some t'
        \<Longrightarrow> P j t' \<Longrightarrow> \<exists>t. step j acc' = Inr (acc'[j + 1 := Some t]) \<and> P (j + 1) t"
  shows "\<exists>acc'. foldE step [0..<m] acc = Inr acc' \<and> length acc' = n + 1
           \<and> (\<forall>j. j \<le> m \<longrightarrow> (\<exists>t. acc' ! j = Some t \<and> P j t))"
  using assms(2,5)
proof (induction m)
  case 0
  then show ?case using assms(1,3,4) by simp
next
  case (Suc m)
  have "\<exists>acc'. foldE step [0..<m] acc = Inr acc' \<and> length acc' = n + 1
           \<and> (\<forall>j. j \<le> m \<longrightarrow> (\<exists>t. acc' ! j = Some t \<and> P j t))"
    by (rule Suc.IH) (use Suc.prems in auto)
  then obtain acc1 where acc1: "foldE step [0..<m] acc = Inr acc1" "length acc1 = n + 1"
    "\<forall>j. j \<le> m \<longrightarrow> (\<exists>t. acc1 ! j = Some t \<and> P j t)" by blast
  then obtain t' where t': "acc1 ! m = Some t'" "P m t'" by auto
  from Suc.prems(2)[of m acc1 t'] acc1(2) t'
  obtain t where t: "step m acc1 = Inr (acc1[m + 1 := Some t])" "P (m + 1) t" by auto
  have run: "foldE step [0..<Suc m] acc = Inr (acc1[m + 1 := Some t])"
    using acc1(1) t(1) by (simp add: foldE_append bindE_def)
  have inv: "\<forall>j. j \<le> Suc m \<longrightarrow> (\<exists>u. (acc1[m + 1 := Some t]) ! j = Some u \<and> P j u)"
  proof (intro allI impI)
    fix j assume j: "j \<le> Suc m"
    show "\<exists>u. (acc1[m + 1 := Some t]) ! j = Some u \<and> P j u"
    proof (cases "j = Suc m")
      case True
      then show ?thesis using t(2) acc1(2) Suc.prems(1) by simp
    next
      case False
      then show ?thesis using acc1(3) j by auto
    qed
  qed
  show ?case using run inv acc1(2) by (intro exI[of _ "acc1[m + 1 := Some t]"]) simp
qed

lemma mapE_all:
  assumes "\<And>x. x \<in> set xs \<Longrightarrow> \<exists>y. f x = Inr y \<and> Q x y"
  shows "\<exists>ys. mapE f xs = Inr ys \<and> length ys = length xs \<and> (\<forall>i<length xs. Q (xs ! i) (ys ! i))"
  using assms
proof (induction xs)
  case Nil
  then show ?case by simp
next
  case (Cons x xs)
  from Cons.prems[of x] obtain y where y: "f x = Inr y" "Q x y" by auto
  from Cons.IH Cons.prems obtain ys where ys: "mapE f xs = Inr ys" "length ys = length xs"
    "\<forall>i<length xs. Q (xs ! i) (ys ! i)" by auto
  have "\<forall>i<length (x # xs). Q ((x # xs) ! i) ((y # ys) ! i)"
    using y(2) ys(3) by (auto simp: nth_Cons split: nat.splits)
  then show ?case using y(1) ys(1,2) by (intro exI[of _ "y # ys"]) simp
qed

subsection \<open>Shapes of the substrate operations\<close>

lemma concat_dims:
  assumes "dims a = pre @ x # post" "dims b = pre @ y # post" "axis = length pre"
  shows "\<exists>t. tf_concat a b axis = Inr t \<and> dims t = pre @ (x + y) # post"
  using assms by (simp add: tf_concat_def list_update_append nth_append)

lemma broadcast_rev_same: "broadcast_rev xs xs = Some xs"
  by (induction xs) auto

lemma sub_dims:
  assumes "dims a = ds" "dims b = ds"
  shows "\<exists>t. tf_sub a b = Inr t \<and> dims t = ds"
  using assms by (simp add: tf_sub_def broadcast_rev_same)

lemma reduce_sum0_dims:
  assumes "dims a = s # ds"
  shows "\<exists>t. tf_reduce_sum0 a = Inr t \<and> dims t = ds"
  using assms by (simp add: tf_reduce_sum0_def)

lemma extend_core_dims:
  assumes "length ms = (if matrix then 2 else 1)" "dims c = r # ms @ [r']"
  shows "\<exists>t. extend_core oib matrix obs c = Inr t \<and> dims t = (if oib then [obs] else []) @ r # ms @ [r']"
  using assms
  by (cases matrix)
     (auto simp: extend_core_def tf_tile_def tf_expand_dims0_def length_Suc_conv eval_nat_numeral)

subsection \<open>Shapes of the contractions\<close>

lemma einsum_rhs_dims:
  assumes "mode_ok mode_str ms" "dims T = s # a # ms @ [b]" "dims R = [s, b, d]" "dims V = c # ms @ [d]"
  shows "\<exists>t. tf_einsum (''sa'' @ mode_str @ ''b,sbd,c'' @ mode_str @ ''d->sac'') [T, R, V] = Inr t \<and> dims t = [s, a, c]"
  using assms(1)
  by (rule mode_okE) (simp_all add: assms tf_einsum_def axis_of_def)

lemma einsum_lhs_dims:
  assumes "mode_ok mode_str ms" "dims L = [s, a, b]" "dims U = a # ms @ [c]" "dims T = s # b # ms @ [d]"
  shows "\<exists>t. tf_einsum (''sab,a'' @ mode_str @ ''c,sb'' @ mode_str @ ''d->scd'') [L, U, T] = Inr t \<and> dims t = [s, c, d]"
  using assms(1)
  by (rule mode_okE) (simp_all add: assms tf_einsum_def axis_of_def)

lemma einsum_lhs_tens_dims:
  assumes "mode_ok mode_str ms" "dims L = [s, a, b]" "dims T = s # b # ms @ [c]"
  shows "\<exists>t. tf_einsum (''sab,sb'' @ mode_str @ ''c->sa'' @ mode_str @ ''c'') [L, T] = Inr t \<and> dims t = s # a # ms @ [c]"
    and "\<exists>t. tf_einsum (''sab,sb'' @ mode_str @ ''c->a'' @ mode_str @ ''c'') [L, T] = Inr t \<and> dims t = a # ms @ [c]"
  using assms(1)
  by (rule mode_okE; simp add: assms tf_einsum_def axis_of_def)+

lemma einsum_left_lhs_dims:
  assumes "mode_ok mode_str ms" "dims U = a # ms @ [b]" "dims L = [s, b, c]"
  shows "\<exists>t. tf_einsum (''a'' @ mode_str @ ''b,sbc->sa'' @ mode_str @ ''c'') [U, L] = Inr t \<and> dims t = s # a # ms @ [c]"
  using assms(1)
  by (rule mode_okE) (simp_all add: assms tf_einsum_def axis_of_def)

lemma einsum_proj_rhs_dims:
  assumes "mode_ok mode_str ms" "dims P = s # a # ms @ [b]" "dims R = [s, b, c]"
  shows "\<exists>t. tf_einsum (''sa'' @ mode_str @ ''b,sbc->sa'' @ mode_str @ ''c'') [P, R] = Inr t \<and> dims t = s # a # ms @ [c]"
    and "\<exists>t. tf_einsum (''sa'' @ mode_str @ ''b,sbc->a'' @ mode_str @ ''c'') [P, R] = Inr t \<and> dims t = a # ms @ [c]"
  using assms(1)
  by (rule mode_okE; simp add: assms tf_einsum_def axis_of_def)+

lemma modes_okE:
  assumes "modes_ok mode_str another ms"
  obtains n where "mode_str = ''i''" "another = ''r''" "ms = [n]"
  | n m where "mode_str = ''ij''" "another = ''rt''" "ms = [n, m]"
  using assms unfolding modes_ok_def
  by (auto simp: length_Suc_conv eval_nat_numeral)

lemma modes_ok_mode_ok: "modes_ok mode_str another ms \<Longrightarrow> mode_ok mode_str ms"
  by (auto simp: modes_ok_def mode_ok_def)

lemma out_okE:
  assumes "out_ok obs os"
  obtains "obs = []" "os = []" | o' where "obs = ''o''" "os = [o']"
  using assms unfolding out_ok_def
  by (auto simp: length_Suc_conv)

lemma einsum_common_dims:
  assumes "mode_ok mode_str ms" "dims L = [s, a, d]" "dims T = s # d # ms @ [b]" "dims R = [s, b, c]"
  shows "\<exists>t. tf_einsum (''sad,sd'' @ mode_str @ ''b,sbc->sa'' @ mode_str @ ''c'') [L, T, R] = Inr t
           \<and> dims t = s # a # ms @ [c]"
  using assms(1)
  by (rule mode_okE) (simp_all add: assms tf_einsum_def axis_of_def)

lemma einsum_u_proj_dims:
  assumes "modes_ok mode_str another ms" "dims U = a # ms @ [c]"
  shows "\<exists>t. tf_einsum (''a'' @ mode_str @ ''c,b'' @ another @ ''c->a'' @ mode_str @ ''b'' @ another) [U, U] = Inr t
           \<and> dims t = a # ms @ a # ms"
  using assms(1)
  by (rule modes_okE) (simp_all add: assms tf_einsum_def axis_of_def)

lemma einsum_gauge_dims:
  assumes "modes_ok mode_str another ms" "dims UP = a # ms @ a # ms" "dims C = s # a # ms @ [d]"
  shows "\<exists>t. tf_einsum (''a'' @ mode_str @ ''b'' @ another @ '',sa'' @ mode_str @ ''d->b'' @ another @ ''d'') [UP, C] = Inr t
           \<and> dims t = a # ms @ [d]"
  using assms(1)
  by (rule modes_okE) (simp_all add: assms tf_einsum_def axis_of_def)

lemma einsum_weighted_dims:
  assumes "mode_ok mode_str ms" "out_ok obs os" "dims C = s # a # ms @ [b]" "dims W = s # os"
  shows "\<exists>t. tf_einsum (''sa'' @ mode_str @ ''b,s'' @ obs @ ''->'' @ obs @ ''a'' @ mode_str @ ''b'') [C, W] = Inr t
           \<and> dims t = os @ a # ms @ [b]"
  using assms
  by (elim mode_okE out_okE) (simp_all add: tf_einsum_def axis_of_def)

lemma einsum_weighted_gauge_dims:
  assumes "modes_ok mode_str another ms" "out_ok obs os" "dims UP = a # ms @ a # ms"
    "dims C = s # a # ms @ [d]" "dims W = s # os"
  shows "\<exists>t. tf_einsum (''a'' @ mode_str @ ''b'' @ another @ '',sa'' @ mode_str @ ''d,s'' @ obs
                         @ ''->'' @ obs @ ''b'' @ another @ ''d'') [UP, C, W] = Inr t
           \<and> dims t = os @ a # ms @ [d]"
  using assms
  by (elim modes_okE out_okE) (simp_all add: tf_einsum_def axis_of_def)

lemma einsum_last_dims:
  assumes "mode_ok mode_str ms" "dims L = [s, a, b]" "dims T = s # b # ms @ [c]"
  shows "\<exists>t. tf_einsum (''sab,sb'' @ mode_str @ ''c->a'' @ mode_str @ ''c'') [L, T] = Inr t
           \<and> dims t = a # ms @ [c]"
  using assms(1)
  by (rule mode_okE) (simp_all add: assms tf_einsum_def axis_of_def)

lemma einsum_weighted_last_dims:
  assumes "mode_ok mode_str ms" "out_ok obs os" "dims L = [s, a, b]" "dims T = s # b # ms @ [c]"
    "dims W = s # os"
  shows "\<exists>t. tf_einsum (''sab,sb'' @ mode_str @ ''c,s'' @ obs @ ''->'' @ obs @ ''a'' @ mode_str @ ''c'') [L, T, W] = Inr t
           \<and> dims t = os @ a # ms @ [c]"
  using assms
  by (elim mode_okE out_okE) (simp_all add: tf_einsum_def axis_of_def)

lemma einsum_matmul_rhs_dims:
  assumes "dims M = [b, i, j, e]" "dims V = [c, i, k, f]" "dims R = [s, d, e, f]" "dims T = [s, a, j, k, d]"
  shows "\<exists>t. tf_einsum ''bije,cikf,sdef,sajkd->sabc'' [M, V, R, T] = Inr t \<and> dims t = [s, a, b, c]"
  by (simp add: assms tf_einsum_def axis_of_def)

lemma einsum_matmul_lhs_dims:
  assumes "dims M = [b, i, j, e]" "dims U = [a, i, k, d]" "dims L = [s, a, b, c]" "dims T = [s, c, j, k, f]"
  shows "\<exists>t. tf_einsum ''bije,aikd,sabc,scjkf->sdef'' [M, U, L, T] = Inr t \<and> dims t = [s, d, e, f]"
  by (simp add: assms tf_einsum_def axis_of_def)

lemma einsum_matmul_proj1_dims:
  assumes "dims T = [s, c, j, k, e]" "dims L = [s, a, b, c]" "dims M = [b, i, j, d]"
  shows "\<exists>t. tf_einsum ''scjke,sabc,bijd->saikde'' [T, L, M] = Inr t \<and> dims t = [s, a, i, k, d, e]"
  by (simp add: assms tf_einsum_def axis_of_def)

lemma einsum_matmul_gauge_dims:
  assumes "dims U = [a, i, k, b]" "dims L = [s, b, c, d]"
  shows "\<exists>t. tf_einsum ''aikb,sbcd->saikcd'' [U, L] = Inr t \<and> dims t = [s, a, i, k, c, d]"
  by (simp add: assms tf_einsum_def axis_of_def)

lemma einsum_matmul_proj2_dims:
  assumes "dims P = [s, a, i, k, c, b]" "dims R = [s, b, c, d]"
  shows "\<exists>t. tf_einsum ''saikcb,sbcd->saikd'' [P, R] = Inr t \<and> dims t = [s, a, i, k, d]"
  by (simp add: assms tf_einsum_def axis_of_def)

lemma einsum_matmul_last_dims:
  assumes "dims L = [s, a, b, c]" "dims M = [b, i, j, d]" "dims T = [s, c, j, k, e]"
  shows "\<exists>t. tf_einsum ''sabc,bijd,scjke->saike'' [L, M, T] = Inr t \<and> dims t = [s, a, i, k, e]"
  by (simp add: assms tf_einsum_def axis_of_def)

lemma get_acc_Some: "i < length acc \<Longrightarrow> acc ! i = Some t \<Longrightarrow> get_acc acc i = Inr t"
  by (simp add: get_acc_def py_nth_def bindE_def)

lemma py_nth_Inr: "i < length xs \<Longrightarrow> py_nth xs i = Inr (xs ! i)"
  by (simp add: py_nth_def)

subsection \<open>Shape of a projection core\<close>

lemma project_proj_core_dims:
  assumes mo: "mode_ok mode_str ms" and k: "k < n"
    and L: "get_acc lhs k = Inr L" "dims L = [s, lk, xk]"
    and T: "dims tens = s # xk # ms @ [xk1]" and U: "dims left = lk # ms @ [lk1]"
    and inner: "k < n - 1 \<Longrightarrow> \<exists>L' R. get_acc lhs (k + 1) = Inr L' \<and> dims L' = [s, lk1, xk1]
                  \<and> get_acc rhs (k + 1) = Inr R \<and> dims R = [s, xk1, rk1]"
    and last: "k = n - 1 \<Longrightarrow> xk1 = rk1"
  shows "\<exists>p. project_proj_core mode_str oib n k lhs rhs tens left = Inr p
           \<and> dims p = (if oib then [s] else []) @ lk # ms @ [rk1]"
proof (cases "k < n - 1")
  case True
  from inner[OF True] obtain L' R where L': "get_acc lhs (k + 1) = Inr L'" "dims L' = [s, lk1, xk1]"
    and R: "get_acc rhs (k + 1) = Inr R" "dims R = [s, xk1, rk1]" by blast
  obtain t1 where t1: "tf_einsum (''sab,sb'' @ mode_str @ ''c->sa'' @ mode_str @ ''c'') [L, tens] = Inr t1"
    "dims t1 = s # lk # ms @ [xk1]"
    using einsum_lhs_tens_dims(1)[OF mo L(2) T] by blast
  obtain t2 where t2: "tf_einsum (''a'' @ mode_str @ ''b,sbc->sa'' @ mode_str @ ''c'') [left, L'] = Inr t2"
    "dims t2 = s # lk # ms @ [xk1]"
    using einsum_left_lhs_dims[OF mo U L'(2)] by blast
  obtain t3 where t3: "tf_sub t1 t2 = Inr t3" "dims t3 = s # lk # ms @ [xk1]"
    using sub_dims[OF t1(2) t2(2)] by blast
  obtain t4 where t4: "tf_einsum (''sa'' @ mode_str @ ''b,sbc->sa'' @ mode_str @ ''c'') [t3, R] = Inr t4"
    "dims t4 = s # lk # ms @ [rk1]"
    using einsum_proj_rhs_dims(1)[OF mo t3(2) R(2)] by blast
  obtain t5 where t5: "tf_einsum (''sa'' @ mode_str @ ''b,sbc->a'' @ mode_str @ ''c'') [t3, R] = Inr t5"
    "dims t5 = lk # ms @ [rk1]"
    using einsum_proj_rhs_dims(2)[OF mo t3(2) R(2)] by blast
  show ?thesis
    unfolding project_proj_core_def
    using True L(1) L'(1) R(1) t1 t2 t3 t4 t5
    by (simp add: bindE_def)
next
  case False
  with k have kl: "k = n - 1" by simp
  obtain t1 where t1: "tf_einsum (''sab,sb'' @ mode_str @ ''c->sa'' @ mode_str @ ''c'') [L, tens] = Inr t1"
    "dims t1 = s # lk # ms @ [xk1]"
    using einsum_lhs_tens_dims(1)[OF mo L(2) T] by blast
  obtain t2 where t2: "tf_einsum (''sab,sb'' @ mode_str @ ''c->a'' @ mode_str @ ''c'') [L, tens] = Inr t2"
    "dims t2 = lk # ms @ [xk1]"
    using einsum_lhs_tens_dims(2)[OF mo L(2) T] by blast
  show ?thesis
    unfolding project_proj_core_def
    using False kl L(1) t1 t2 last[OF kl]
    by (simp add: bindE_def)
qed

lemma project_sum_proj_core_dims:
  assumes mo: "modes_ok mode_str another ms" and oo: "out_ok obs os" and k: "k < n"
    and L: "get_acc lhs k = Inr L" "dims L = [s, lk, xk]"
    and T: "dims tens = s # xk # ms @ [xk1]" and U: "dims left = lk # ms @ [lk1]"
    and W: "case weights of None \<Rightarrow> os = [] | Some w \<Rightarrow> dims w = s # os"
    and inner: "k < n - 1 \<Longrightarrow> \<exists>R. get_acc rhs (k + 1) = Inr R \<and> dims R = [s, xk1, rk1]"
    and last: "k = n - 1 \<Longrightarrow> xk1 = rk1"
  shows "\<exists>p. project_sum_proj_core mode_str another obs weights n k lhs rhs tens left = Inr p
           \<and> dims p = os @ lk # ms @ [rk1]"
proof (cases "k < n - 1")
  case True
  note mo1 = modes_ok_mode_ok[OF mo]
  from inner[OF True] obtain R where R: "get_acc rhs (k + 1) = Inr R" "dims R = [s, xk1, rk1]" by blast
  obtain c where c: "tf_einsum (''sad,sd'' @ mode_str @ ''b,sbc->sa'' @ mode_str @ ''c'') [L, tens, R] = Inr c"
    "dims c = s # lk # ms @ [rk1]"
    using einsum_common_dims[OF mo1 L(2) T R(2)] by blast
  obtain u where u: "tf_einsum (''a'' @ mode_str @ ''c,b'' @ another @ ''c->a'' @ mode_str @ ''b'' @ another) [left, left] = Inr u"
    "dims u = lk # ms @ lk # ms"
    using einsum_u_proj_dims[OF mo U] by blast
  show ?thesis
  proof (cases weights)
    case None
    with W have os: "os = []" by simp
    obtain p where p: "tf_reduce_sum0 c = Inr p" "dims p = lk # ms @ [rk1]"
      using reduce_sum0_dims[OF c(2)] by blast
    obtain g where g: "tf_einsum (''a'' @ mode_str @ ''b'' @ another @ '',sa'' @ mode_str @ ''d->b'' @ another @ ''d'') [u, c] = Inr g"
      "dims g = lk # ms @ [rk1]"
      using einsum_gauge_dims[OF mo u(2) c(2)] by blast
    obtain r where r: "tf_sub p g = Inr r" "dims r = lk # ms @ [rk1]"
      using sub_dims[OF p(2) g(2)] by blast
    show ?thesis
      unfolding project_sum_proj_core_def
      using True None os L(1) R(1) c u p g r by (simp add: bindE_def)
  next
    case (Some w)
    with W have w: "dims w = s # os" by simp
    obtain p where p: "tf_einsum (''sa'' @ mode_str @ ''b,s'' @ obs @ ''->'' @ obs @ ''a'' @ mode_str @ ''b'') [c, w] = Inr p"
      "dims p = os @ lk # ms @ [rk1]"
      using einsum_weighted_dims[OF mo1 oo c(2) w] by blast
    obtain g where g: "tf_einsum (''a'' @ mode_str @ ''b'' @ another @ '',sa'' @ mode_str @ ''d,s'' @ obs
                         @ ''->'' @ obs @ ''b'' @ another @ ''d'') [u, c, w] = Inr g"
      "dims g = os @ lk # ms @ [rk1]"
      using einsum_weighted_gauge_dims[OF mo oo u(2) c(2) w] by blast
    obtain r where r: "tf_sub p g = Inr r" "dims r = os @ lk # ms @ [rk1]"
      using sub_dims[OF p(2) g(2)] by blast
    show ?thesis
      unfolding project_sum_proj_core_def
      using True Some L(1) R(1) c u p g r by (simp add: bindE_def)
  qed
next
  case False
  with k have kl: "k = n - 1" by simp
  note mo1 = modes_ok_mode_ok[OF mo]
  show ?thesis
  proof (cases weights)
    case None
    with W have os: "os = []" by simp
    obtain p where p: "tf_einsum (''sab,sb'' @ mode_str @ ''c->a'' @ mode_str @ ''c'') [L, tens] = Inr p"
      "dims p = lk # ms @ [xk1]"
      using einsum_last_dims[OF mo1 L(2) T] by blast
    show ?thesis
      unfolding project_sum_proj_core_def
      using False kl None os L(1) p last[OF kl] by (simp add: bindE_def)
  next
    case (Some w)
    with W have w: "dims w = s # os" by simp
    obtain p where p: "tf_einsum (''sab,sb'' @ mode_str @ ''c,s'' @ obs @ ''->'' @ obs @ ''a'' @ mode_str @ ''c'') [L, tens, w] = Inr p"
      "dims p = os @ lk # ms @ [xk1]"
      using einsum_weighted_last_dims[OF mo1 oo L(2) T w] by blast
    show ?thesis
      unfolding project_sum_proj_core_def
      using False kl Some L(1) p last[OF kl] by (simp add: bindE_def)
  qed
qed

lemma matmul_proj_core_dims:
  assumes k: "k < n"
    and L: "get_acc lhs k = Inr L" "dims L = [s, lk, mk, xk]"
    and T: "dims tens = [s, xk, j, k', xk1]" and U: "dims left = [lk, i, k', lk1]"
    and M: "dims matrix_core = [mk, i, j, mk1]"
    and inner: "k < n - 1 \<Longrightarrow> \<exists>L' R. get_acc lhs (k + 1) = Inr L' \<and> dims L' = [s, lk1, mk1, xk1]
                  \<and> get_acc rhs (k + 1) = Inr R \<and> dims R = [s, xk1, mk1, rk1]"
    and last: "k = n - 1 \<Longrightarrow> xk1 = rk1"
  shows "\<exists>p. matmul_proj_core n k lhs rhs tens matrix_core left = Inr p
           \<and> dims p = [s, lk, i, k', rk1]"
proof (cases "k < n - 1")
  case True
  from inner[OF True] obtain L' R where L': "get_acc lhs (k + 1) = Inr L'" "dims L' = [s, lk1, mk1, xk1]"
    and R: "get_acc rhs (k + 1) = Inr R" "dims R = [s, xk1, mk1, rk1]" by blast
  obtain t1 where t1: "tf_einsum ''scjke,sabc,bijd->saikde'' [tens, L, matrix_core] = Inr t1"
    "dims t1 = [s, lk, i, k', mk1, xk1]"
    using einsum_matmul_proj1_dims[OF T L(2) M] by blast
  obtain t2 where t2: "tf_einsum ''aikb,sbcd->saikcd'' [left, L'] = Inr t2"
    "dims t2 = [s, lk, i, k', mk1, xk1]"
    using einsum_matmul_gauge_dims[OF U L'(2)] by blast
  obtain t3 where t3: "tf_sub t1 t2 = Inr t3" "dims t3 = [s, lk, i, k', mk1, xk1]"
    using sub_dims[OF t1(2) t2(2)] by blast
  obtain t4 where t4: "tf_einsum ''saikcb,sbcd->saikd'' [t3, R] = Inr t4"
    "dims t4 = [s, lk, i, k', rk1]"
    using einsum_matmul_proj2_dims[OF t3(2) R(2)] by blast
  show ?thesis
    unfolding matmul_proj_core_def
    using True L(1) L'(1) R(1) t1 t2 t3 t4
    by (simp add: bindE_def)
next
  case False
  with k have kl: "k = n - 1" by simp
  obtain t1 where t1: "tf_einsum ''sabc,bijd,scjke->saike'' [L, matrix_core, tens] = Inr t1"
    "dims t1 = [s, lk, i, k', xk1]"
    using einsum_matmul_last_dims[OF L(2) M T] by blast
  show ?thesis
    unfolding matmul_proj_core_def
    using False kl L(1) t1 last[OF kl]
    by (simp add: bindE_def)
qed

lemma assemble_core_dims:
  assumes lenms: "length ms = (if matrix then 2 else 1)"
    and P: "dims proj = (if oib then [obs] else []) @ lk # ms @ [rk1]"
    and U: "dims left = lk # ms @ [lk1]" and V: "dims right = rk # ms @ [rk1]"
    and rd: "right_rank_dim = (if matrix then 3 else 2) + (if oib then 1 else 0)"
    and ld: "left_rank_dim = (if oib then 1 else 0)"
    and raw: "length raw = (if matrix then 2 else 1)" "\<forall>row\<in>set raw. k < length row"
      "ms = map (\<lambda>row. row ! k) raw"
    and ranks: "k < length rrs" "rrs ! k = rk" "k + 1 < length lrs" "lrs ! (k + 1) = lk1"
  shows "\<exists>c. assemble_core oib matrix obs right_rank_dim left_rank_dim n raw rrs lrs k proj left right = Inr c
           \<and> dims c = (if oib then [obs] else []) @ (if k = 0 then lk else rk + lk) # ms
                        @ [if k \<noteq> 0 \<and> k = n - 1 then rk1 else rk1 + lk1]"
proof -
  let ?bp = "if oib then [obs] else []"
  obtain el where el: "extend_core oib matrix obs left = Inr el" "dims el = ?bp @ lk # ms @ [lk1]"
    using extend_core_dims[OF lenms U] by blast
  obtain er where er: "extend_core oib matrix obs right = Inr er" "dims er = ?bp @ rk # ms @ [rk1]"
    using extend_core_dims[OF lenms V] by blast
  have rdl: "right_rank_dim = length (?bp @ lk # ms)" "right_rank_dim = length (?bp @ rk # ms)"
    using rd lenms by auto
  have ldl: "left_rank_dim = length ?bp" using ld by auto
  show ?thesis
  proof (cases "k = 0")
    case True
    obtain c where c: "tf_concat proj el right_rank_dim = Inr c" "dims c = (?bp @ lk # ms) @ (rk1 + lk1) # []"
      using concat_dims[of proj "?bp @ lk # ms" rk1 "[]" el lk1 right_rank_dim] P el(2) rdl(1) by auto
    show ?thesis
      unfolding assemble_core_def using True el(1) er(1) c by (simp add: bindE_def)
  next
    case k0: False
    show ?thesis
    proof (cases "k = n - 1")
      case True
      obtain c where c: "tf_concat er proj left_rank_dim = Inr c" "dims c = ?bp @ (rk + lk) # (ms @ [rk1])"
        using concat_dims[of er ?bp rk "ms @ [rk1]" proj lk left_rank_dim] P er(2) ldl by auto
      show ?thesis
        unfolding assemble_core_def using True k0 el(1) er(1) c by (simp add: bindE_def)
    next
      case False
      let ?shape0 = "rk # ms @ [lk1]"
      have shape0: "(if matrix
              then bindE (py_nth raw 0) (\<lambda>row0. bindE (py_nth row0 k) (\<lambda>mode_size_n.
                   bindE (py_nth raw 1) (\<lambda>row1. bindE (py_nth row1 k) (\<lambda>mode_size_m.
                   Inr [rk, mode_size_n, mode_size_m, lk1]))))
              else bindE (py_nth raw 0) (\<lambda>row0. bindE (py_nth row0 k) (\<lambda>mode_size.
                   Inr [rk, mode_size, lk1]))) = Inr ?shape0"
        using raw by (cases matrix) (auto simp: py_nth_def bindE_def length_Suc_conv eval_nat_numeral)
      let ?zeros = "tf_zeros (if oib then [obs] @ ?shape0 else ?shape0)"
      have z: "dims ?zeros = ?bp @ rk # ms @ [lk1]" by (simp add: tf_zeros_def)
      obtain up where up: "tf_concat er ?zeros right_rank_dim = Inr up"
        "dims up = (?bp @ rk # ms) @ (rk1 + lk1) # []"
        using concat_dims[of er "?bp @ rk # ms" rk1 "[]" ?zeros lk1 right_rank_dim] er(2) z rdl(2) by auto
      obtain lo where lo: "tf_concat proj el right_rank_dim = Inr lo"
        "dims lo = (?bp @ lk # ms) @ (rk1 + lk1) # []"
        using concat_dims[of proj "?bp @ lk # ms" rk1 "[]" el lk1 right_rank_dim] P el(2) rdl(1) by auto
      obtain c where c: "tf_concat up lo left_rank_dim = Inr c"
        "dims c = ?bp @ (rk + lk) # (ms @ [rk1 + lk1])"
        using concat_dims[of up ?bp rk "ms @ [rk1 + lk1]" lo lk left_rank_dim] up(2) lo(2) ldl by auto
      show ?thesis
        unfolding assemble_core_def Let_def
        using False k0 el(1) er(1) ranks shape0 up(1) lo(1) c
        by (simp add: bindE_def py_nth_def)
    qed
  qed
qed

lemma length_lazy_tt_ranks: "1 \<le> ndims t \<Longrightarrow> length (lazy_tt_ranks t) = ndims t + 1"
  by (cases "rev (tt_cores t)") (auto simp: lazy_tt_ranks_def ndims_def)

lemma valid_ttD:
  assumes "valid_tt t"
  shows "1 \<le> ndims t"
    and "length (raw_shape t) = 1 \<or> length (raw_shape t) = 2"
    and "\<forall>row\<in>set (raw_shape t). length row = ndims t"
    and "lazy_tt_ranks t ! 0 = 1" and "lazy_tt_ranks t ! ndims t = 1"
    and "length (lazy_tt_ranks t) = ndims t + 1"
    and "\<And>k. k < ndims t \<Longrightarrow> dims (tt_cores t ! k)
           = batch_prefix t @ [lazy_tt_ranks t ! k] @ mode_sizes t k @ [lazy_tt_ranks t ! (k + 1)]"
  using assms length_lazy_tt_ranks[of t]
  by (auto simp: valid_tt_def Let_def list_all_iff)

lemma mode_sizes_mode_ok:
  assumes "length (raw_shape t) = 1 \<or> length (raw_shape t) = 2"
  shows "mode_ok (if is_tt_matrix t then ''ij'' else ''i'') (mode_sizes t k)"
    and "modes_ok (if is_tt_matrix t then ''ij'' else ''i'') (if is_tt_matrix t then ''rt'' else ''r'') (mode_sizes t k)"
    and "length (mode_sizes t k) = (if is_tt_matrix t then 2 else 1)"
  using assms by (auto simp: mode_ok_def modes_ok_def is_tt_matrix_def mode_sizes_def)

lemma expand_batch_dim_length: "length (tt_cores (expand_batch_dim t)) = ndims t"
  by (auto simp: expand_batch_dim_def ndims_def split: option.splits)

lemma expand_batch_dim_cores:
  assumes "valid_tt t" "k < ndims t"
  shows "dims (tt_cores (expand_batch_dim t) ! k)
         = lazy_batch_size t # lazy_tt_ranks t ! k # mode_sizes t k @ [lazy_tt_ranks t ! (k + 1)]"
  using valid_ttD(7)[OF assms] assms(2)
  by (auto simp: expand_batch_dim_def ndims_def lazy_batch_size_def batch_prefix_def
      tf_expand_dims0_def split: option.splits)

lemma prepare_rhs_dims:
  assumes mo: "\<And>k. mode_ok mode_str (ms k)"
    and W: "length (tt_cores what) = n" "\<And>k. k < n \<Longrightarrow> dims (tt_cores what ! k) = s # xr ! k # ms k @ [xr ! (k + 1)]"
    and V: "length (tt_cores right) = n" "\<And>k. k < n \<Longrightarrow> dims (tt_cores right ! k) = rr ! k # ms k @ [rr ! (k + 1)]"
    and ends: "xr ! n = 1" "rr ! n = 1"
  shows "\<exists>rhs. prepare_rhs mode_str what right n s = Inr rhs \<and> length rhs = n + 1
           \<and> (\<forall>j. 1 \<le> j \<and> j \<le> n \<longrightarrow> (\<exists>t. rhs ! j = Some t \<and> dims t = [s, xr ! j, rr ! j]))"
proof -
  let ?acc = "(replicate (n + 1) None)[n := Some (tf_ones [s, 1, 1])]"
  let ?P = "\<lambda>j t. dims t = [s, xr ! j, rr ! j]"
  have step: "\<exists>t. rhs_step mode_str what right j acc' = Inr (acc'[j := Some t]) \<and> ?P j t"
    if j1: "1 \<le> j" and jn: "j < n" and la: "length acc' = n + 1" and nx: "acc' ! (j + 1) = Some t'" and Pn: "?P (j + 1) t'" for j acc' t'
  proof -
    have g: "get_acc acc' (j + 1) = Inr t'" using jn la nx by (intro get_acc_Some) auto
    obtain t where t: "tf_einsum (''sa'' @ mode_str @ ''b,sbd,c'' @ mode_str @ ''d->sac'')
        [tt_cores what ! j, t', tt_cores right ! j] = Inr t" "dims t = [s, xr ! j, rr ! j]"
      using einsum_rhs_dims[OF mo W(2)[OF jn] Pn V(2)[OF jn]] by blast
    show ?thesis
      unfolding rhs_step_def using jn W(1) V(1) g t
      by (auto simp: py_nth_def bindE_def)
  qed
  have "\<exists>acc'. foldE (rhs_step mode_str what right) (rev [1..<n]) ?acc = Inr acc' \<and> length acc' = n + 1
           \<and> (\<forall>j. n \<le> j \<longrightarrow> acc' ! j = ?acc ! j)
           \<and> (\<forall>j. 1 \<le> j \<and> j < n \<longrightarrow> (\<exists>t. acc' ! j = Some t \<and> ?P j t))"
    by (rule foldE_down[where tm = "tf_ones [s, 1, 1]" and P = ?P])
       (use step ends in \<open>auto simp: tf_ones_def simp del: replicate.simps\<close>)
  then obtain acc' where acc': "foldE (rhs_step mode_str what right) (rev [1..<n]) ?acc = Inr acc'"
    "length acc' = n + 1" "\<forall>j. n \<le> j \<longrightarrow> acc' ! j = ?acc ! j"
    "\<forall>j. 1 \<le> j \<and> j < n \<longrightarrow> (\<exists>t. acc' ! j = Some t \<and> ?P j t)" by blast
  have "acc' ! n = Some (tf_ones [s, 1, 1])" using acc'(3) by (simp del: replicate.simps)
  then have "\<forall>j. 1 \<le> j \<and> j \<le> n \<longrightarrow> (\<exists>t. acc' ! j = Some t \<and> ?P j t)"
    using acc'(4) ends by (auto simp: tf_ones_def le_less)
  then show ?thesis
    unfolding prepare_rhs_def using acc'(1,2) by blast
qed

lemma prepare_lhs_dims:
  assumes mo: "\<And>k. mode_ok mode_str (ms k)"
    and W: "length (tt_cores what) = n" "\<And>k. k < n \<Longrightarrow> dims (tt_cores what ! k) = s # xr ! k # ms k @ [xr ! (k + 1)]"
    and U: "length (tt_cores left) = n" "\<And>k. k < n \<Longrightarrow> dims (tt_cores left ! k) = lr ! k # ms k @ [lr ! (k + 1)]"
    and ends: "xr ! 0 = 1" "lr ! 0 = 1"
  shows "\<exists>lhs. prepare_lhs mode_str what left n s = Inr lhs \<and> length lhs = n + 1
           \<and> (\<forall>j. j \<le> n - 1 \<longrightarrow> (\<exists>t. lhs ! j = Some t \<and> dims t = [s, lr ! j, xr ! j]))"
proof -
  let ?acc = "(replicate (n + 1) None)[0 := Some (tf_ones [s, 1, 1])]"
  let ?P = "\<lambda>j t. dims t = [s, lr ! j, xr ! j]"
  have step: "\<exists>t. lhs_step mode_str what left j acc' = Inr (acc'[j + 1 := Some t]) \<and> ?P (j + 1) t"
    if j1: "j < n - 1" and la: "length acc' = n + 1" and nx: "acc' ! j = Some t'" and Pn: "?P j t'" for j acc' t'
  proof -
    have jn: "j < n" using j1 by simp
    have g: "get_acc acc' j = Inr t'" using la nx jn by (intro get_acc_Some) auto
    obtain t where t: "tf_einsum (''sab,a'' @ mode_str @ ''c,sb'' @ mode_str @ ''d->scd'')
        [t', tt_cores left ! j, tt_cores what ! j] = Inr t" "dims t = [s, lr ! (j + 1), xr ! (j + 1)]"
      using einsum_lhs_dims[OF mo Pn U(2)[OF jn] W(2)[OF jn]] by blast
    show ?thesis
      unfolding lhs_step_def using jn W(1) U(1) g t
      by (auto simp: py_nth_def bindE_def)
  qed
  have "\<exists>acc'. foldE (lhs_step mode_str what left) [0..<n - 1] ?acc = Inr acc' \<and> length acc' = n + 1
           \<and> (\<forall>j. j \<le> n - 1 \<longrightarrow> (\<exists>t. acc' ! j = Some t \<and> ?P j t))"
    by (rule foldE_up[where tz = "tf_ones [s, 1, 1]" and P = ?P])
       (use step ends in \<open>auto simp: tf_ones_def simp del: replicate.simps\<close>)
  then show ?thesis
    unfolding prepare_lhs_def by blast
qed

lemma inputs_ok_facts:
  assumes ok: "projection_inputs_ok orth what where"
  defines "n \<equiv> ndims where"
    and "left \<equiv> orth where True" and "right \<equiv> orth (orth where True) False"
  shows "valid_tt what" "valid_tt where" "valid_tt left" "valid_tt right"
    and "batch_size where = None" "batch_size left = None" "batch_size right = None"
    and "raw_shape what = raw_shape where" "raw_shape left = raw_shape where"
      "raw_shape right = raw_shape where"
    and "ndims what = n" "ndims left = n" "ndims right = n" "1 \<le> n"
    and "mode_sizes what k = mode_sizes where k" "mode_sizes left k = mode_sizes where k"
      "mode_sizes right k = mode_sizes where k"
proof -
  have v: "valid_tt what" "valid_tt where" and c: "check_args what where = None"
    and o: "orth_ok orth where"
    using ok by (auto simp: projection_inputs_ok_def)
  show "valid_tt what" "valid_tt where" by fact+
  show vl: "valid_tt left" and vr: "valid_tt right"
    using o by (auto simp: orth_ok_def Let_def left_def right_def)
  show "batch_size where = None" and rs: "raw_shape what = raw_shape where"
    using c by (auto simp: check_args_def is_TensorTrain_def get_raw_shape_def split: if_splits)
  show "batch_size left = None" "batch_size right = None"
    and rl: "raw_shape left = raw_shape where" and rr: "raw_shape right = raw_shape where"
    using o by (auto simp: orth_ok_def Let_def left_def right_def is_TensorTrain_def)
  obtain row where row: "row \<in> set (raw_shape where)"
    using valid_ttD(2)[OF v(2)] by (cases "raw_shape where") auto
  have "length row = n" using valid_ttD(3)[OF v(2)] row by (simp add: n_def)
  then show "ndims what = n" "ndims left = n" "ndims right = n"
    using valid_ttD(3)[OF v(1)] valid_ttD(3)[OF vl] valid_ttD(3)[OF vr] row rs rl rr by auto
  show "1 \<le> n" using valid_ttD(1)[OF v(2)] by (simp add: n_def)
  show "mode_sizes what k = mode_sizes where k" "mode_sizes left k = mode_sizes where k"
      "mode_sizes right k = mode_sizes where k"
    using rs rl rr by (simp_all add: mode_sizes_def)
qed

lemma project_shape:
  assumes ok: "projection_inputs_ok orth what where"
  shows "\<exists>r. project orth what where = Inr r
           \<and> raw_shape r = raw_shape where \<and> batch_size r = batch_size what
           \<and> length (tt_cores r) = ndims where
           \<and> (\<forall>k<ndims where. dims (tt_cores r ! k)
                 = projected_dims (batch_prefix what) where
                     (lazy_tt_ranks (orth (orth where True) False)) (lazy_tt_ranks (orth where True)) k)"
proof -
  define n where "n = ndims where"
  define left where "left = orth where True"
  define right where "right = orth (orth where True) False"
  define s where "s = lazy_batch_size what"
  define xr where "xr = lazy_tt_ranks what"
  define lr where "lr = lazy_tt_ranks left"
  define rr where "rr = lazy_tt_ranks right"
  define mode_str where "mode_str = (if is_tt_matrix where then ''ij'' else ''i'')"
  define oib where "oib = is_TensorTrainBatch what"
  define obs where "obs = (case batch_size what of None \<Rightarrow> 0 | Some b \<Rightarrow> b)"
  define what' where "what' = expand_batch_dim what"
  note f = inputs_ok_facts[OF ok, folded n_def left_def right_def]
  have bp: "batch_prefix what = (if oib then [obs] else [])" "batch_prefix what = (if oib then [s] else [])"
    by (auto simp: batch_prefix_def oib_def obs_def s_def is_TensorTrainBatch_def lazy_batch_size_def
        split: option.splits)
  have mo: "mode_ok mode_str (mode_sizes where k)" for k
    unfolding mode_str_def by (rule mode_sizes_mode_ok(1)[OF valid_ttD(2)[OF f(2)]])
  have lenms: "length (mode_sizes where k) = (if is_tt_matrix where then 2 else 1)" for k
    by (rule mode_sizes_mode_ok(3)[OF valid_ttD(2)[OF f(2)]])
  have W: "length (tt_cores what') = n"
    "\<And>k. k < n \<Longrightarrow> dims (tt_cores what' ! k) = s # xr ! k # mode_sizes where k @ [xr ! (k + 1)]"
    using expand_batch_dim_cores[OF f(1)] expand_batch_dim_length[of what] f(11,15)
    by (simp_all add: what'_def s_def xr_def)
  have U: "length (tt_cores left) = n"
    "\<And>k. k < n \<Longrightarrow> dims (tt_cores left ! k) = lr ! k # mode_sizes where k @ [lr ! (k + 1)]"
    using valid_ttD(7)[OF f(3)] f(6,12,16)
    by (simp_all add: lr_def batch_prefix_def ndims_def)
  have V: "length (tt_cores right) = n"
    "\<And>k. k < n \<Longrightarrow> dims (tt_cores right ! k) = rr ! k # mode_sizes where k @ [rr ! (k + 1)]"
    using valid_ttD(7)[OF f(4)] f(7,13,17)
    by (simp_all add: rr_def batch_prefix_def ndims_def)
  have ends: "xr ! 0 = 1" "xr ! n = 1" "lr ! 0 = 1" "lr ! n = 1" "rr ! 0 = 1" "rr ! n = 1"
    "length lr = n + 1" "length rr = n + 1"
    using valid_ttD(4,5,6)[OF f(1)] valid_ttD(4,5,6)[OF f(3)] valid_ttD(4,5,6)[OF f(4)] f(11,12,13)
    by (simp_all add: xr_def lr_def rr_def)
  obtain rhs where rhs: "prepare_rhs mode_str what' right n s = Inr rhs" "length rhs = n + 1"
    "\<forall>j. 1 \<le> j \<and> j \<le> n \<longrightarrow> (\<exists>t. rhs ! j = Some t \<and> dims t = [s, xr ! j, rr ! j])"
    using prepare_rhs_dims[of mode_str "mode_sizes where" what' n s xr right rr, OF mo W V ends(2,6)]
    by blast
  obtain lhs where lhs: "prepare_lhs mode_str what' left n s = Inr lhs" "length lhs = n + 1"
    "\<forall>j. j \<le> n - 1 \<longrightarrow> (\<exists>t. lhs ! j = Some t \<and> dims t = [s, lr ! j, xr ! j])"
    using prepare_lhs_dims[of mode_str "mode_sizes where" what' n s xr left lr, OF mo W U ends(1,3)]
    by blast
  let ?rd = "(if is_tt_matrix where then 3 else 2) + (if oib then 1 else 0)"
  let ?ld = "if oib then 1 else (0::nat)"
  let ?body = "\<lambda>core_idx.
                   bindE (py_nth (tt_cores what') core_idx) (\<lambda>tens_core.
                   bindE (py_nth (tt_cores left) core_idx) (\<lambda>left_tang_core.
                   bindE (py_nth (tt_cores right) core_idx) (\<lambda>right_tang_core.
                   bindE (project_proj_core mode_str oib n core_idx lhs rhs
                            tens_core left_tang_core) (\<lambda>proj_core.
                   assemble_core oib (is_tt_matrix where) obs
                     ?rd ?ld n (lazy_raw_shape where) rr lr
                     core_idx proj_core left_tang_core right_tang_core))))"
  let ?Q = "\<lambda>k c. dims c = projected_dims (batch_prefix what) where rr lr k"
  have body: "\<exists>c. ?body k = Inr c \<and> ?Q k c" if "k \<in> set [0..<n]" for k
  proof -
    have k: "k < n" using that by simp
    obtain L where L: "lhs ! k = Some L" "dims L = [s, lr ! k, xr ! k]"
    proof -
      have "k \<le> n - 1" using k by simp
      then show ?thesis using lhs(3) that by blast
    qed
    have gL: "get_acc lhs k = Inr L" using L(1) lhs(2) k by (intro get_acc_Some) auto
    have inner: "\<exists>L' R. get_acc lhs (k + 1) = Inr L' \<and> dims L' = [s, lr ! (k + 1), xr ! (k + 1)]
                  \<and> get_acc rhs (k + 1) = Inr R \<and> dims R = [s, xr ! (k + 1), rr ! (k + 1)]"
      if kin: "k < n - 1"
    proof -
      have k1: "k + 1 \<le> n - 1" "1 \<le> k + 1 \<and> k + 1 \<le> n" using kin by auto
      obtain L' where L': "lhs ! (k + 1) = Some L'" "dims L' = [s, lr ! (k + 1), xr ! (k + 1)]"
        using lhs(3) k1(1) by blast
      obtain R where R: "rhs ! (k + 1) = Some R" "dims R = [s, xr ! (k + 1), rr ! (k + 1)]"
        using rhs(3) k1(2) by blast
      have "get_acc lhs (k + 1) = Inr L'" using L'(1) lhs(2) kin by (intro get_acc_Some) auto
      moreover have "get_acc rhs (k + 1) = Inr R" using R(1) rhs(2) kin by (intro get_acc_Some) auto
      ultimately show ?thesis using L'(2) R(2) by blast
    qed
    have last: "xr ! (k + 1) = rr ! (k + 1)" if "k = n - 1"
      using that ends(2,6) f(14) by simp
    obtain p where p: "project_proj_core mode_str oib n k lhs rhs (tt_cores what' ! k) (tt_cores left ! k) = Inr p"
      "dims p = (if oib then [s] else []) @ lr ! k # mode_sizes where k @ [rr ! (k + 1)]"
      using project_proj_core_dims[OF mo k gL L(2) W(2)[OF k] U(2)[OF k] inner last] by blast
    have P: "dims p = (if oib then [obs] else []) @ lr ! k # mode_sizes where k @ [rr ! (k + 1)]"
      using p(2) bp by auto
    have raw: "length (lazy_raw_shape where) = (if is_tt_matrix where then 2 else 1)"
      "\<forall>row\<in>set (lazy_raw_shape where). k < length row"
      "mode_sizes where k = map (\<lambda>row. row ! k) (lazy_raw_shape where)"
      using valid_ttD(2,3)[OF f(2)] k
      by (auto simp: lazy_raw_shape_def is_tt_matrix_def mode_sizes_def n_def)
    obtain c where c: "assemble_core oib (is_tt_matrix where) obs ?rd ?ld n (lazy_raw_shape where) rr lr
        k p (tt_cores left ! k) (tt_cores right ! k) = Inr c"
      "dims c = (if oib then [obs] else []) @ (if k = 0 then lr ! k else rr ! k + lr ! k) # mode_sizes where k
                        @ [if k \<noteq> 0 \<and> k = n - 1 then rr ! (k + 1) else rr ! (k + 1) + lr ! (k + 1)]"
      using assemble_core_dims[OF lenms P U(2)[OF k] V(2)[OF k] refl refl raw, of rr lr n] k ends(7,8)
      by auto
    have "?Q k c"
      using c(2) bp(1) ends(3,6) f(14) by (auto simp: projected_dims_def n_def[symmetric])
    moreover have "?body k = Inr c"
      using k W(1) U(1) V(1) p(1) c(1) by (simp add: py_nth_def bindE_def)
    ultimately show ?thesis by blast
  qed
  obtain cs where cs: "mapE ?body [0..<n] = Inr cs" "length cs = n"
    "\<forall>i<n. ?Q i (cs ! i)"
    using mapE_all[of "[0..<n]" ?body ?Q, OF body] by auto
  have chk: "check_args what where = None" using ok by (simp add: projection_inputs_ok_def)
  let ?r = "if oib then TensorTrainBatch cs (get_raw_shape where) (dtype where) obs
            else TensorTrain cs (get_raw_shape where) (dtype where)"
  have run: "project orth what where = Inr ?r"
    unfolding project_def Let_def
    using chk rhs(1) lhs(1) cs(1)
    by (simp add: bindE_def n_def left_def right_def s_def rr_def lr_def mode_str_def oib_def
        obs_def what'_def)
  have "batch_size ?r = batch_size what"
    by (auto simp: TensorTrain_def TensorTrainBatch_def oib_def obs_def is_TensorTrainBatch_def)
  moreover have "raw_shape ?r = raw_shape where" "tt_cores ?r = cs"
    by (auto simp: TensorTrain_def TensorTrainBatch_def get_raw_shape_def)
  ultimately show ?thesis
    using run cs(2,3) unfolding n_def rr_def lr_def left_def right_def by (intro exI[of _ ?r]) simp
qed

lemma lazy_batch_size_expand: "lazy_batch_size (expand_batch_dim t) = lazy_batch_size t"
  by (auto simp: lazy_batch_size_def expand_batch_dim_def split: option.splits)

lemma project_sum_shape:
  assumes ok: "projection_inputs_ok orth what where" and wok: "weights_ok what weights"
  shows "\<exists>r. project_sum orth what where weights = Inr r
           \<and> raw_shape r = raw_shape where \<and> batch_size r = output_batch weights
           \<and> length (tt_cores r) = ndims where
           \<and> (\<forall>k<ndims where. dims (tt_cores r ! k)
                 = projected_dims (option_prefix (output_batch weights)) where
                     (lazy_tt_ranks (orth (orth where True) False)) (lazy_tt_ranks (orth where True)) k)"
proof -
  define n where "n = ndims where"
  define left where "left = orth where True"
  define right where "right = orth (orth where True) False"
  define s where "s = lazy_batch_size what"
  define xr where "xr = lazy_tt_ranks what"
  define lr where "lr = lazy_tt_ranks left"
  define rr where "rr = lazy_tt_ranks right"
  define mode_str where "mode_str = (if is_tt_matrix where then ''ij'' else ''i'')"
  define another where "another = (if is_tt_matrix where then ''rt'' else ''r'')"
  define oib where "oib = (case weights of None \<Rightarrow> False
                 | Some w \<Rightarrow> length (dims w) > 1 \<and> dims w ! 1 > 1)"
  define obstr where "obstr = (if oib then ''o'' else [])"
  define obs where "obs = (case weights of None \<Rightarrow> 0 | Some w \<Rightarrow> dim_at w 1)"
  define os where "os = (if oib then [obs] else [])"
  define what' where "what' = expand_batch_dim what"
  note f = inputs_ok_facts[OF ok, folded n_def left_def right_def]
  have ob: "output_batch weights = (if oib then Some obs else None)"
    by (auto simp: output_batch_def oib_def obs_def dim_at_def split: option.splits)
  have bp: "option_prefix (output_batch weights) = os"
    by (simp add: ob os_def option_prefix_def)
  have oo: "out_ok obstr os"
    by (simp add: out_ok_def obstr_def os_def)
  have Wt: "case weights of None \<Rightarrow> os = [] | Some w \<Rightarrow> dims w = s # os"
  proof (cases weights)
    case None
    then show ?thesis by (simp add: os_def oib_def)
  next
    case (Some w)
    then have "dims w = [s] \<or> (length (dims w) = 2 \<and> dims w ! 0 = s \<and> dims w ! 1 > 1)"
      using wok by (simp add: weights_ok_def s_def)
    then show ?thesis
    proof
      assume "dims w = [s]"
      then show ?thesis using Some by (simp add: os_def oib_def)
    next
      assume a: "length (dims w) = 2 \<and> dims w ! 0 = s \<and> dims w ! 1 > 1"
      then obtain o' where "dims w = [s, o']"
        by (auto simp: length_Suc_conv eval_nat_numeral)
      then show ?thesis using Some a by (simp add: os_def oib_def obs_def dim_at_def)
    qed
  qed
  have mo: "mode_ok mode_str (mode_sizes where k)" for k
    unfolding mode_str_def by (rule mode_sizes_mode_ok(1)[OF valid_ttD(2)[OF f(2)]])
  have mo2: "modes_ok mode_str another (mode_sizes where k)" for k
    unfolding mode_str_def another_def by (rule mode_sizes_mode_ok(2)[OF valid_ttD(2)[OF f(2)]])
  have lenms: "length (mode_sizes where k) = (if is_tt_matrix where then 2 else 1)" for k
    by (rule mode_sizes_mode_ok(3)[OF valid_ttD(2)[OF f(2)]])
  have W: "length (tt_cores what') = n"
    "\<And>k. k < n \<Longrightarrow> dims (tt_cores what' ! k) = s # xr ! k # mode_sizes where k @ [xr ! (k + 1)]"
    using expand_batch_dim_cores[OF f(1)] expand_batch_dim_length[of what] f(11,15)
    by (simp_all add: what'_def s_def xr_def)
  have U: "length (tt_cores left) = n"
    "\<And>k. k < n \<Longrightarrow> dims (tt_cores left ! k) = lr ! k # mode_sizes where k @ [lr ! (k + 1)]"
    using valid_ttD(7)[OF f(3)] f(6,12,16)
    by (simp_all add: lr_def batch_prefix_def ndims_def)
  have V: "length (tt_cores right) = n"
    "\<And>k. k < n \<Longrightarrow> dims (tt_cores right ! k) = rr ! k # mode_sizes where k @ [rr ! (k + 1)]"
    using valid_ttD(7)[OF f(4)] f(7,13,17)
    by (simp_all add: rr_def batch_prefix_def ndims_def)
  have ends: "xr ! 0 = 1" "xr ! n = 1" "lr ! 0 = 1" "lr ! n = 1" "rr ! 0 = 1" "rr ! n = 1"
    "length lr = n + 1" "length rr = n + 1"
    using valid_ttD(4,5,6)[OF f(1)] valid_ttD(4,5,6)[OF f(3)] valid_ttD(4,5,6)[OF f(4)] f(11,12,13)
    by (simp_all add: xr_def lr_def rr_def)
  obtain rhs where rhs: "prepare_rhs mode_str what' right n s = Inr rhs" "length rhs = n + 1"
    "\<forall>j. 1 \<le> j \<and> j \<le> n \<longrightarrow> (\<exists>t. rhs ! j = Some t \<and> dims t = [s, xr ! j, rr ! j])"
    using prepare_rhs_dims[of mode_str "mode_sizes where" what' n s xr right rr, OF mo W V ends(2,6)]
    by blast
  obtain lhs where lhs: "prepare_lhs mode_str what' left n s = Inr lhs" "length lhs = n + 1"
    "\<forall>j. j \<le> n - 1 \<longrightarrow> (\<exists>t. lhs ! j = Some t \<and> dims t = [s, lr ! j, xr ! j])"
    using prepare_lhs_dims[of mode_str "mode_sizes where" what' n s xr left lr, OF mo W U ends(1,3)]
    by blast
  let ?rd = "(if is_tt_matrix where then 3 else 2) + (if oib then 1 else 0)"
  let ?ld = "if oib then 1 else (0::nat)"
  let ?body = "\<lambda>core_idx.
                   bindE (py_nth (tt_cores what') core_idx) (\<lambda>tens_core.
                   bindE (py_nth (tt_cores left) core_idx) (\<lambda>left_tang_core.
                   bindE (py_nth (tt_cores right) core_idx) (\<lambda>right_tang_core.
                   bindE (project_sum_proj_core mode_str another obstr weights n core_idx lhs rhs
                            tens_core left_tang_core) (\<lambda>proj_core.
                   assemble_core oib (is_tt_matrix where) obs
                     ?rd ?ld n (lazy_raw_shape where) rr lr
                     core_idx proj_core left_tang_core right_tang_core))))"
  let ?Q = "\<lambda>k c. dims c = projected_dims os where rr lr k"
  have body: "\<exists>c. ?body k = Inr c \<and> ?Q k c" if kin: "k \<in> set [0..<n]" for k
  proof -
    have k: "k < n" using kin by simp
    have "k \<le> n - 1" using k by simp
    then obtain L where L: "lhs ! k = Some L" "dims L = [s, lr ! k, xr ! k]"
      using lhs(3) by blast
    have gL: "get_acc lhs k = Inr L" using L(1) lhs(2) k by (intro get_acc_Some) auto
    have inner: "\<exists>R. get_acc rhs (k + 1) = Inr R \<and> dims R = [s, xr ! (k + 1), rr ! (k + 1)]"
      if kin: "k < n - 1"
    proof -
      have k1: "1 \<le> k + 1 \<and> k + 1 \<le> n" using kin by auto
      obtain R where R: "rhs ! (k + 1) = Some R" "dims R = [s, xr ! (k + 1), rr ! (k + 1)]"
        using rhs(3) k1 by blast
      have "get_acc rhs (k + 1) = Inr R" using R(1) rhs(2) kin by (intro get_acc_Some) auto
      then show ?thesis using R(2) by blast
    qed
    have last: "xr ! (k + 1) = rr ! (k + 1)" if "k = n - 1"
      using that ends(2,6) f(14) by simp
    obtain p where p: "project_sum_proj_core mode_str another obstr weights n k lhs rhs
           (tt_cores what' ! k) (tt_cores left ! k) = Inr p"
      "dims p = os @ lr ! k # mode_sizes where k @ [rr ! (k + 1)]"
      using project_sum_proj_core_dims[OF mo2 oo k gL L(2) W(2)[OF k] U(2)[OF k] Wt inner last] by blast
    have P: "dims p = (if oib then [obs] else []) @ lr ! k # mode_sizes where k @ [rr ! (k + 1)]"
      using p(2) by (simp add: os_def)
    have raw: "length (lazy_raw_shape where) = (if is_tt_matrix where then 2 else 1)"
      "\<forall>row\<in>set (lazy_raw_shape where). k < length row"
      "mode_sizes where k = map (\<lambda>row. row ! k) (lazy_raw_shape where)"
      using valid_ttD(2,3)[OF f(2)] k
      by (auto simp: lazy_raw_shape_def is_tt_matrix_def mode_sizes_def n_def)
    obtain c where c: "assemble_core oib (is_tt_matrix where) obs ?rd ?ld n (lazy_raw_shape where) rr lr
        k p (tt_cores left ! k) (tt_cores right ! k) = Inr c"
      "dims c = (if oib then [obs] else []) @ (if k = 0 then lr ! k else rr ! k + lr ! k) # mode_sizes where k
                        @ [if k \<noteq> 0 \<and> k = n - 1 then rr ! (k + 1) else rr ! (k + 1) + lr ! (k + 1)]"
      using assemble_core_dims[OF lenms P U(2)[OF k] V(2)[OF k] refl refl raw, of rr lr n] k ends(7,8)
      by auto
    have "?Q k c"
      using c(2) ends(3,6) f(14) by (auto simp: projected_dims_def n_def[symmetric] os_def)
    moreover have "?body k = Inr c"
      using k W(1) U(1) V(1) p(1) c(1) by (simp add: py_nth_def bindE_def)
    ultimately show ?thesis by blast
  qed
  obtain cs where cs: "mapE ?body [0..<n] = Inr cs" "length cs = n"
    "\<forall>i<n. ?Q i (cs ! i)"
    using mapE_all[of "[0..<n]" ?body ?Q, OF body] by auto
  have chk: "check_args what' where = None"
    using ok by (simp add: projection_inputs_ok_def what'_def check_args_expand)
  let ?r = "if oib then TensorTrainBatch cs (get_raw_shape where) (dtype where) obs
            else TensorTrain cs (get_raw_shape where) (dtype where)"
  have run: "project_sum orth what where weights = Inr ?r"
    unfolding project_sum_def Let_def
    using chk rhs(1) lhs(1) cs(1)
    by (simp add: bindE_def n_def left_def right_def s_def rr_def lr_def mode_str_def oib_def
        obs_def what'_def another_def obstr_def lazy_batch_size_expand)
  have "batch_size ?r = output_batch weights"
    by (auto simp: TensorTrain_def TensorTrainBatch_def ob)
  moreover have "raw_shape ?r = raw_shape where" "tt_cores ?r = cs"
    by (auto simp: TensorTrain_def TensorTrainBatch_def get_raw_shape_def)
  ultimately show ?thesis
    using run cs(2,3) bp unfolding n_def rr_def lr_def left_def right_def by (intro exI[of _ ?r]) simp
qed

lemma matmul_prepare_rhs_dims:
  assumes W: "length (tt_cores what) = n" "\<And>k. k < n \<Longrightarrow> dims (tt_cores what ! k) = [s, xr ! k, i k, j k, xr ! (k + 1)]"
    and V: "length (tt_cores right) = n" "\<And>k. k < n \<Longrightarrow> dims (tt_cores right ! k) = [rr ! k, i k, j k, rr ! (k + 1)]"
    and M: "length (tt_cores matrix) = n" "\<And>k. k < n \<Longrightarrow> dims (tt_cores matrix ! k) = [mr ! k, i k, i k, mr ! (k + 1)]"
    and ends: "xr ! n = 1" "rr ! n = 1" "mr ! n = 1"
  shows "\<exists>rhs. matmul_prepare_rhs what right matrix n s = Inr rhs \<and> length rhs = n + 1
           \<and> (\<forall>j. 1 \<le> j \<and> j \<le> n \<longrightarrow> (\<exists>t. rhs ! j = Some t \<and> dims t = [s, xr ! j, mr ! j, rr ! j]))"
proof -
  let ?acc = "(replicate (n + 1) None)[n := Some (tf_ones [s, 1, 1, 1])]"
  let ?P = "\<lambda>j t. dims t = [s, xr ! j, mr ! j, rr ! j]"
  have step: "\<exists>t. matmul_rhs_step what right matrix j acc' = Inr (acc'[j := Some t]) \<and> ?P j t"
    if j1: "1 \<le> j" and jn: "j < n" and la: "length acc' = n + 1" and nx: "acc' ! (j + 1) = Some t'"
      and Pn: "?P (j + 1) t'" for j acc' t'
  proof -
    have g: "get_acc acc' (j + 1) = Inr t'" using jn la nx by (intro get_acc_Some) auto
    obtain t where t: "tf_einsum ''bije,cikf,sdef,sajkd->sabc''
        [tt_cores matrix ! j, tt_cores right ! j, t', tt_cores what ! j] = Inr t"
      "dims t = [s, xr ! j, mr ! j, rr ! j]"
      using einsum_matmul_rhs_dims[OF M(2)[OF jn] V(2)[OF jn] Pn W(2)[OF jn]] by blast
    show ?thesis
      unfolding matmul_rhs_step_def using jn W(1) V(1) M(1) g t
      by (auto simp: py_nth_def bindE_def)
  qed
  have "\<exists>acc'. foldE (matmul_rhs_step what right matrix) (rev [1..<n]) ?acc = Inr acc' \<and> length acc' = n + 1
           \<and> (\<forall>j. n \<le> j \<longrightarrow> acc' ! j = ?acc ! j)
           \<and> (\<forall>j. 1 \<le> j \<and> j < n \<longrightarrow> (\<exists>t. acc' ! j = Some t \<and> ?P j t))"
    by (rule foldE_down[where tm = "tf_ones [s, 1, 1, 1]" and P = ?P])
       (use step ends in \<open>auto simp: tf_ones_def simp del: replicate.simps\<close>)
  then obtain acc' where acc': "foldE (matmul_rhs_step what right matrix) (rev [1..<n]) ?acc = Inr acc'"
    "length acc' = n + 1" "\<forall>j. n \<le> j \<longrightarrow> acc' ! j = ?acc ! j"
    "\<forall>j. 1 \<le> j \<and> j < n \<longrightarrow> (\<exists>t. acc' ! j = Some t \<and> ?P j t)" by blast
  have "acc' ! n = Some (tf_ones [s, 1, 1, 1])" using acc'(3) by (simp del: replicate.simps)
  then have "\<forall>j. 1 \<le> j \<and> j \<le> n \<longrightarrow> (\<exists>t. acc' ! j = Some t \<and> ?P j t)"
    using acc'(4) ends by (auto simp: tf_ones_def le_less)
  then show ?thesis
    unfolding matmul_prepare_rhs_def using acc'(1,2) by blast
qed

lemma matmul_prepare_lhs_dims:
  assumes W: "length (tt_cores what) = n" "\<And>k. k < n \<Longrightarrow> dims (tt_cores what ! k) = [s, xr ! k, i k, j k, xr ! (k + 1)]"
    and U: "length (tt_cores left) = n" "\<And>k. k < n \<Longrightarrow> dims (tt_cores left ! k) = [lr ! k, i k, j k, lr ! (k + 1)]"
    and M: "length (tt_cores matrix) = n" "\<And>k. k < n \<Longrightarrow> dims (tt_cores matrix ! k) = [mr ! k, i k, i k, mr ! (k + 1)]"
    and ends: "xr ! 0 = 1" "lr ! 0 = 1" "mr ! 0 = 1"
  shows "\<exists>lhs. matmul_prepare_lhs what left matrix n s = Inr lhs \<and> length lhs = n + 1
           \<and> (\<forall>j. j \<le> n - 1 \<longrightarrow> (\<exists>t. lhs ! j = Some t \<and> dims t = [s, lr ! j, mr ! j, xr ! j]))"
proof -
  let ?acc = "(replicate (n + 1) None)[0 := Some (tf_ones [s, 1, 1, 1])]"
  let ?P = "\<lambda>j t. dims t = [s, lr ! j, mr ! j, xr ! j]"
  have step: "\<exists>t. matmul_lhs_step what left matrix j acc' = Inr (acc'[j + 1 := Some t]) \<and> ?P (j + 1) t"
    if j1: "j < n - 1" and la: "length acc' = n + 1" and nx: "acc' ! j = Some t'" and Pn: "?P j t'"
    for j acc' t'
  proof -
    have jn: "j < n" using j1 by simp
    have g: "get_acc acc' j = Inr t'" using la nx jn by (intro get_acc_Some) auto
    obtain t where t: "tf_einsum ''bije,aikd,sabc,scjkf->sdef''
        [tt_cores matrix ! j, tt_cores left ! j, t', tt_cores what ! j] = Inr t"
      "dims t = [s, lr ! (j + 1), mr ! (j + 1), xr ! (j + 1)]"
      using einsum_matmul_lhs_dims[OF M(2)[OF jn] U(2)[OF jn] Pn W(2)[OF jn]] by blast
    show ?thesis
      unfolding matmul_lhs_step_def using jn W(1) U(1) M(1) g t
      by (auto simp: py_nth_def bindE_def)
  qed
  have "\<exists>acc'. foldE (matmul_lhs_step what left matrix) [0..<n - 1] ?acc = Inr acc' \<and> length acc' = n + 1
           \<and> (\<forall>j. j \<le> n - 1 \<longrightarrow> (\<exists>t. acc' ! j = Some t \<and> ?P j t))"
    by (rule foldE_up[where tz = "tf_ones [s, 1, 1, 1]" and P = ?P])
       (use step ends in \<open>auto simp: tf_ones_def simp del: replicate.simps\<close>)
  then show ?thesis
    unfolding matmul_prepare_lhs_def by blast
qed

lemma project_matmul_shape:
  assumes mok: "matmul_inputs_ok orth what where matrix"
  shows "\<exists>r. project_matmul orth what where matrix = Inr r
           \<and> raw_shape r = raw_shape where \<and> batch_size r = batch_size what
           \<and> length (tt_cores r) = ndims where
           \<and> (\<forall>k<ndims where. dims (tt_cores r ! k)
                 = projected_dims (batch_prefix what) where
                     (lazy_tt_ranks (orth (orth where True) False)) (lazy_tt_ranks (orth where True)) k)"
proof -
  define n where "n = ndims where"
  define left where "left = orth where True"
  define right where "right = orth (orth where True) False"
  define s where "s = lazy_batch_size what"
  define xr where "xr = lazy_tt_ranks what"
  define lr where "lr = lazy_tt_ranks left"
  define rr where "rr = lazy_tt_ranks right"
  define mr where "mr = lazy_tt_ranks matrix"
  define obs where "obs = (case batch_size what of None \<Rightarrow> 0 | Some b \<Rightarrow> b)"
  define what' where "what' = expand_batch_dim what"
  define i where "i = (\<lambda>k. raw_shape where ! 0 ! k)"
  define j where "j = (\<lambda>k. raw_shape where ! 1 ! k)"
  have ok: "projection_inputs_ok orth what where" and oib: "is_TensorTrainBatch what"
    and mat: "is_tt_matrix where" and vm: "valid_tt matrix" and bm: "batch_size matrix = None"
    and rm: "raw_shape matrix = [raw_shape where ! 0, raw_shape where ! 0]"
    using mok by (auto simp: matmul_inputs_ok_def is_TensorTrain_def)
  note f = inputs_ok_facts[OF ok, folded n_def left_def right_def]
  have bp: "batch_prefix what = [obs]" "obs = s"
    using oib by (auto simp: batch_prefix_def obs_def s_def is_TensorTrainBatch_def lazy_batch_size_def
        split: option.splits)
  have len2: "length (raw_shape where) = 2"
    using valid_ttD(2)[OF f(2)] mat by (auto simp: is_tt_matrix_def)
  then obtain r0 r1 where raw: "raw_shape where = [r0, r1]"
    by (auto simp: length_Suc_conv eval_nat_numeral)
  have ms: "mode_sizes where k = [i k, j k]" for k
    by (simp add: mode_sizes_def raw i_def j_def)
  have "r0 \<in> set (raw_shape where)" by (simp add: raw)
  then have "length r0 = n" using valid_ttD(3)[OF f(2)] by (simp add: n_def)
  then have nm: "ndims matrix = n"
    using valid_ttD(3)[OF vm] rm raw by simp
  have msm: "mode_sizes matrix k = [i k, i k]" for k
    by (simp add: mode_sizes_def rm i_def)
  have W: "length (tt_cores what') = n"
    "\<And>k. k < n \<Longrightarrow> dims (tt_cores what' ! k) = [s, xr ! k, i k, j k, xr ! (k + 1)]"
    using expand_batch_dim_cores[OF f(1)] expand_batch_dim_length[of what] f(11,15) ms
    by (simp_all add: what'_def s_def xr_def)
  have U: "length (tt_cores left) = n"
    "\<And>k. k < n \<Longrightarrow> dims (tt_cores left ! k) = [lr ! k, i k, j k, lr ! (k + 1)]"
    using valid_ttD(7)[OF f(3)] f(6,12,16) ms
    by (simp_all add: lr_def batch_prefix_def ndims_def)
  have V: "length (tt_cores right) = n"
    "\<And>k. k < n \<Longrightarrow> dims (tt_cores right ! k) = [rr ! k, i k, j k, rr ! (k + 1)]"
    using valid_ttD(7)[OF f(4)] f(7,13,17) ms
    by (simp_all add: rr_def batch_prefix_def ndims_def)
  have M: "length (tt_cores matrix) = n"
    "\<And>k. k < n \<Longrightarrow> dims (tt_cores matrix ! k) = [mr ! k, i k, i k, mr ! (k + 1)]"
    using valid_ttD(7)[OF vm] bm nm msm
    by (simp_all add: mr_def batch_prefix_def ndims_def)
  have ends: "xr ! 0 = 1" "xr ! n = 1" "lr ! 0 = 1" "lr ! n = 1" "rr ! 0 = 1" "rr ! n = 1"
    "length lr = n + 1" "length rr = n + 1" "mr ! 0 = 1" "mr ! n = 1"
    using valid_ttD(4,5,6)[OF f(1)] valid_ttD(4,5,6)[OF f(3)] valid_ttD(4,5,6)[OF f(4)]
      valid_ttD(4,5)[OF vm] f(11,12,13) nm
    by (simp_all add: xr_def lr_def rr_def mr_def)
  obtain rhs where rhs: "matmul_prepare_rhs what' right matrix n s = Inr rhs" "length rhs = n + 1"
    "\<forall>j. 1 \<le> j \<and> j \<le> n \<longrightarrow> (\<exists>t. rhs ! j = Some t \<and> dims t = [s, xr ! j, mr ! j, rr ! j])"
    using matmul_prepare_rhs_dims[of what' n s xr i j right rr matrix mr, OF W V M ends(2,6,10)]
    by blast
  obtain lhs where lhs: "matmul_prepare_lhs what' left matrix n s = Inr lhs" "length lhs = n + 1"
    "\<forall>j. j \<le> n - 1 \<longrightarrow> (\<exists>t. lhs ! j = Some t \<and> dims t = [s, lr ! j, mr ! j, xr ! j])"
    using matmul_prepare_lhs_dims[of what' n s xr i j left lr matrix mr, OF W U M ends(1,3,9)]
    by blast
  let ?body = "\<lambda>core_idx.
                   bindE (py_nth (tt_cores what') core_idx) (\<lambda>tens_core.
                   bindE (py_nth (tt_cores matrix) core_idx) (\<lambda>matrix_core.
                   bindE (py_nth (tt_cores left) core_idx) (\<lambda>left_tang_core.
                   bindE (py_nth (tt_cores right) core_idx) (\<lambda>right_tang_core.
                   bindE (matmul_proj_core n core_idx lhs rhs tens_core matrix_core
                            left_tang_core) (\<lambda>proj_core.
                   assemble_core True True obs
                     (3 + 1) 1 n (lazy_raw_shape where) rr lr
                     core_idx proj_core left_tang_core right_tang_core)))))"
  let ?Q = "\<lambda>k c. dims c = projected_dims [obs] where rr lr k"
  have body: "\<exists>c. ?body k = Inr c \<and> ?Q k c" if kin: "k \<in> set [0..<n]" for k
  proof -
    have k: "k < n" using kin by simp
    have "k \<le> n - 1" using k by simp
    then obtain L where L: "lhs ! k = Some L" "dims L = [s, lr ! k, mr ! k, xr ! k]"
      using lhs(3) by blast
    have gL: "get_acc lhs k = Inr L" using L(1) lhs(2) k by (intro get_acc_Some) auto
    have inner: "\<exists>L' R. get_acc lhs (k + 1) = Inr L' \<and> dims L' = [s, lr ! (k + 1), mr ! (k + 1), xr ! (k + 1)]
                  \<and> get_acc rhs (k + 1) = Inr R \<and> dims R = [s, xr ! (k + 1), mr ! (k + 1), rr ! (k + 1)]"
      if kin: "k < n - 1"
    proof -
      have k1: "k + 1 \<le> n - 1" "1 \<le> k + 1 \<and> k + 1 \<le> n" using kin by auto
      obtain L' where L': "lhs ! (k + 1) = Some L'" "dims L' = [s, lr ! (k + 1), mr ! (k + 1), xr ! (k + 1)]"
        using lhs(3) k1(1) by blast
      obtain R where R: "rhs ! (k + 1) = Some R" "dims R = [s, xr ! (k + 1), mr ! (k + 1), rr ! (k + 1)]"
        using rhs(3) k1(2) by blast
      have "get_acc lhs (k + 1) = Inr L'" using L'(1) lhs(2) kin by (intro get_acc_Some) auto
      moreover have "get_acc rhs (k + 1) = Inr R" using R(1) rhs(2) kin by (intro get_acc_Some) auto
      ultimately show ?thesis using L'(2) R(2) by blast
    qed
    have last: "xr ! (k + 1) = rr ! (k + 1)" if "k = n - 1"
      using that ends(2,6) f(14) by simp
    obtain p where p: "matmul_proj_core n k lhs rhs (tt_cores what' ! k) (tt_cores matrix ! k)
           (tt_cores left ! k) = Inr p"
      "dims p = [s, lr ! k, i k, j k, rr ! (k + 1)]"
      using matmul_proj_core_dims[OF k gL L(2) W(2)[OF k] U(2)[OF k] M(2)[OF k] inner last] by blast
    have P: "dims p = (if True then [obs] else []) @ lr ! k # mode_sizes where k @ [rr ! (k + 1)]"
      using p(2) bp ms by simp
    have raws: "length (lazy_raw_shape where) = (if True then 2 else 1)"
      "\<forall>row\<in>set (lazy_raw_shape where). k < length row"
      "mode_sizes where k = map (\<lambda>row. row ! k) (lazy_raw_shape where)"
      using valid_ttD(3)[OF f(2)] k len2
      by (auto simp: lazy_raw_shape_def mode_sizes_def n_def)
    have lenms: "length (mode_sizes where k) = (if True then 2 else 1)" by (simp add: ms)
    have Uk: "dims (tt_cores left ! k) = lr ! k # mode_sizes where k @ [lr ! (k + 1)]"
      and Vk: "dims (tt_cores right ! k) = rr ! k # mode_sizes where k @ [rr ! (k + 1)]"
      using U(2)[OF k] V(2)[OF k] ms by simp_all
    obtain c where c: "assemble_core True True obs (3 + 1) 1 n (lazy_raw_shape where) rr lr
        k p (tt_cores left ! k) (tt_cores right ! k) = Inr c"
      "dims c = (if True then [obs] else []) @ (if k = 0 then lr ! k else rr ! k + lr ! k) # mode_sizes where k
                        @ [if k \<noteq> 0 \<and> k = n - 1 then rr ! (k + 1) else rr ! (k + 1) + lr ! (k + 1)]"
      using assemble_core_dims[OF lenms P Uk Vk _ _ raws, of "3 + 1" 1 rr lr n] k ends(7,8)
      by auto
    have "?Q k c"
      using c(2) ends(3,6) f(14) by (auto simp: projected_dims_def n_def[symmetric])
    moreover have "?body k = Inr c"
      using k W(1) U(1) V(1) M(1) p(1) c(1) by (simp add: py_nth_def bindE_def)
    ultimately show ?thesis by blast
  qed
  obtain cs where cs: "mapE ?body [0..<n] = Inr cs" "length cs = n"
    "\<forall>i<n. ?Q i (cs ! i)"
    using mapE_all[of "[0..<n]" ?body ?Q, OF body] by auto
  have chk: "check_args what where = None" using ok by (simp add: projection_inputs_ok_def)
  let ?r = "TensorTrainBatch cs (get_raw_shape where) (dtype where) obs"
  have run: "project_matmul orth what where matrix = Inr ?r"
    unfolding project_matmul_def Let_def
    using chk rhs(1) lhs(1) cs(1) oib
    by (simp add: bindE_def n_def left_def right_def s_def rr_def lr_def
        obs_def what'_def)
  have "batch_size ?r = batch_size what"
    using oib by (auto simp: TensorTrainBatch_def obs_def is_TensorTrainBatch_def)
  moreover have "raw_shape ?r = raw_shape where" "tt_cores ?r = cs"
    by (auto simp: TensorTrainBatch_def get_raw_shape_def)
  ultimately show ?thesis
    using run cs(2,3) bp unfolding n_def rr_def lr_def left_def right_def by (intro exI[of _ ?r]) simp
qed

subsection \<open>Ranks and mode sizes of the output\<close>

lemma batch_prefix_option_prefix: "batch_prefix t = option_prefix (batch_size t)"
  by (simp add: batch_prefix_def option_prefix_def)

lemma ranks_of_projected:
  assumes raw: "raw_shape r = raw_shape where" "length (raw_shape where) = 1 \<or> length (raw_shape where) = 2"
    and len: "length (tt_cores r) = ndims where" "1 \<le> ndims where"
    and cores: "\<forall>k<ndims where. dims (tt_cores r ! k) = projected_dims (batch_prefix r) where rr lr k"
  shows "lazy_tt_ranks r = map (\<lambda>k. if k = 0 then 1 else rr ! k + lr ! k) [0..<ndims where]
           @ [if ndims where = 1 then rr ! 1 + lr ! 1 else 1]"
    and "\<forall>k<ndims where. core_mode_sizes r k = mode_sizes where k"
proof -
  let ?n = "ndims where"
  have lb: "length (batch_prefix r) = left_tt_rank_dim r"
    by (auto simp: batch_prefix_def left_tt_rank_dim_def is_TensorTrainBatch_def split: option.splits)
  have lm: "length (mode_sizes where k) = (if is_tt_matrix r then 2 else 1)" for k
    using raw by (auto simp: mode_sizes_def is_tt_matrix_def)
  have rd: "right_tt_rank_dim r = length (batch_prefix r) + 1 + length (mode_sizes where k)" for k
    using lb lm[of k] by (auto simp: right_tt_rank_dim_def left_tt_rank_dim_def)
  have lead: "dim_at (tt_cores r ! k) (left_tt_rank_dim r) = (if k = 0 then 1 else rr ! k + lr ! k)"
    if "k < ?n" for k
    using cores that lb[symmetric] by (simp add: dim_at_def projected_dims_def nth_append)
  have trail: "dim_at (tt_cores r ! k) (right_tt_rank_dim r)
      = (if k \<noteq> 0 \<and> k = ?n - 1 then 1 else rr ! (k + 1) + lr ! (k + 1))" if "k < ?n" for k
    using cores that rd[of k] by (simp add: dim_at_def projected_dims_def nth_append)
  have nonempty: "tt_cores r \<noteq> []" using len by auto
  then obtain c cs where rv: "rev (tt_cores r) = c # cs" by (cases "rev (tt_cores r)") auto
  have c: "c = tt_cores r ! (?n - 1)"
    using rv len nonempty by (metis last_conv_nth last_rev hd_rev list.sel(1) rev_rev_ident)
  have m: "map (\<lambda>c. dim_at c (left_tt_rank_dim r)) (tt_cores r)
      = map (\<lambda>k. if k = 0 then 1 else rr ! k + lr ! k) [0..<?n]"
    using lead len(1) by (intro nth_equalityI) auto
  have t: "dim_at c (right_tt_rank_dim r) = (if ?n = 1 then rr ! 1 + lr ! 1 else 1)"
    using trail[of "?n - 1"] len(2) c by auto
  show "lazy_tt_ranks r = map (\<lambda>k. if k = 0 then 1 else rr ! k + lr ! k) [0..<?n]
           @ [if ?n = 1 then rr ! 1 + lr ! 1 else 1]"
    unfolding lazy_tt_ranks_def using m t rv by simp
  show "\<forall>k<?n. core_mode_sizes r k = mode_sizes where k"
    using cores lb by (auto simp: core_mode_sizes_def projected_dims_def)
qed








lemma project_sum_result:
  assumes "project_sum orth what where weights = Inr r"
  shows "get_raw_shape r = get_raw_shape where" "batch_size r = output_batch weights"
  using assms
  by (auto simp: project_sum_def Let_def bindE_def TensorTrain_def TensorTrainBatch_def
      get_raw_shape_def output_batch_def dim_at_def split: option.splits sum.splits if_splits)

lemma project_result:
  assumes "project orth what where = Inr r"
  shows "get_raw_shape r = get_raw_shape where"
  using assms
  by (auto simp: project_def Let_def bindE_def TensorTrain_def TensorTrainBatch_def
      get_raw_shape_def split: option.splits sum.splits if_splits)

lemma project_matmul_result:
  assumes "project_matmul orth what where matrix = Inr r"
  shows "get_raw_shape r = get_raw_shape where"
  using assms
  by (auto simp: project_matmul_def Let_def bindE_def TensorTrain_def TensorTrainBatch_def
      get_raw_shape_def split: option.splits sum.splits if_splits)





lemma result_ranks_Inr: "r = Inr t \<Longrightarrow> result_ranks r = lazy_tt_ranks t"
  by (simp add: result_ranks_def)

lemma project_modes:
  assumes ok: "projection_inputs_ok orth what where"
  shows "\<exists>r. project orth what where = Inr r \<and> get_raw_shape r = get_raw_shape where
           \<and> (\<forall>k<ndims where. core_mode_sizes r k = mode_sizes where k)"
proof -
  from project_shape[OF ok] obtain r where r: "project orth what where = Inr r"
    "raw_shape r = raw_shape where" "batch_size r = batch_size what"
    "length (tt_cores r) = ndims where"
    "\<forall>k<ndims where. dims (tt_cores r ! k) = projected_dims (batch_prefix what) where
         (lazy_tt_ranks (orth (orth where True) False)) (lazy_tt_ranks (orth where True)) k"
    by blast
  have bp: "batch_prefix r = batch_prefix what" using r(3) by (simp add: batch_prefix_def)
  have v: "valid_tt where" using ok by (simp add: projection_inputs_ok_def)
  show ?thesis
    using ranks_of_projected(2)[OF r(2) valid_ttD(2)[OF v] r(4) valid_ttD(1)[OF v], unfolded bp, OF r(5)]
      r(1,2)
    by (auto simp: get_raw_shape_def)
qed

lemma project_sum_modes:
  assumes ok: "projection_inputs_ok orth what where" and wok: "weights_ok what weights"
  shows "\<exists>r. project_sum orth what where weights = Inr r \<and> get_raw_shape r = get_raw_shape where
           \<and> (\<forall>k<ndims where. core_mode_sizes r k = mode_sizes where k)"
proof -
  from project_sum_shape[OF ok wok] obtain r where r: "project_sum orth what where weights = Inr r"
    "raw_shape r = raw_shape where" "batch_size r = output_batch weights"
    "length (tt_cores r) = ndims where"
    "\<forall>k<ndims where. dims (tt_cores r ! k) = projected_dims (option_prefix (output_batch weights)) where
         (lazy_tt_ranks (orth (orth where True) False)) (lazy_tt_ranks (orth where True)) k"
    by blast
  have bp: "batch_prefix r = option_prefix (output_batch weights)"
    using r(3) by (simp add: batch_prefix_option_prefix)
  have v: "valid_tt where" using ok by (simp add: projection_inputs_ok_def)
  show ?thesis
    using ranks_of_projected(2)[OF r(2) valid_ttD(2)[OF v] r(4) valid_ttD(1)[OF v], unfolded bp, OF r(5)]
      r(1,2)
    by (auto simp: get_raw_shape_def)
qed

lemma project_matmul_modes:
  assumes mok: "matmul_inputs_ok orth what where matrix"
  shows "\<exists>r. project_matmul orth what where matrix = Inr r \<and> get_raw_shape r = get_raw_shape where
           \<and> (\<forall>k<ndims where. core_mode_sizes r k = mode_sizes where k)"
proof -
  from project_matmul_shape[OF mok] obtain r where r: "project_matmul orth what where matrix = Inr r"
    "raw_shape r = raw_shape where" "batch_size r = batch_size what"
    "length (tt_cores r) = ndims where"
    "\<forall>k<ndims where. dims (tt_cores r ! k) = projected_dims (batch_prefix what) where
         (lazy_tt_ranks (orth (orth where True) False)) (lazy_tt_ranks (orth where True)) k"
    by blast
  have bp: "batch_prefix r = batch_prefix what" using r(3) by (simp add: batch_prefix_def)
  have v: "valid_tt where" using mok by (simp add: matmul_inputs_ok_def projection_inputs_ok_def)
  show ?thesis
    using ranks_of_projected(2)[OF r(2) valid_ttD(2)[OF v] r(4) valid_ttD(1)[OF v], unfolded bp, OF r(5)]
      r(1,2)
    by (auto simp: get_raw_shape_def)
qed

subsection \<open>What a contraction that returned says about its inputs\<close>















subsection \<open>\<open>project_matmul\<close> on a single TT object\<close>





subsection \<open>The values of the contractions\<close>

lemma sum_set_Cons:
  assumes "finite A" "finite B"
  shows "sum f (set_Cons A B) = (\<Sum>x\<in>A. \<Sum>xs\<in>B. f (x # xs))"
proof -
  have e: "set_Cons A B = (\<lambda>(x, xs). x # xs) ` (A \<times> B)"
    by (auto simp: set_Cons_def)
  have i: "inj_on (\<lambda>(x, xs). x # xs) (A \<times> B)"
    by (auto simp: inj_on_def)
  have "sum f (set_Cons A B) = (\<Sum>p\<in>A \<times> B. f (fst p # snd p))"
    unfolding e using sum.reindex[OF i, of f] by (simp add: split_def o_def)
  also have "\<dots> = (\<Sum>x\<in>A. \<Sum>xs\<in>B. f (x # xs))"
    by (simp add: sum.cartesian_product split_def)
  finally show ?thesis .
qed

lemma finite_set_Cons: "finite A \<Longrightarrow> finite B \<Longrightarrow> finite (set_Cons A B)"
proof -
  assume "finite A" "finite B"
  moreover have "set_Cons A B = (\<lambda>(x, xs). x # xs) ` (A \<times> B)"
    by (auto simp: set_Cons_def)
  ultimately show ?thesis by simp
qed

lemma finite_mode_idx: "finite (mode_idx ms)"
  unfolding mode_idx_def by (induction ms) (auto intro: finite_set_Cons)

lemma finite_multi_idx: "finite (multi_idx sh)"
  unfolding multi_idx_def by (induction sh) (auto intro: finite_set_Cons finite_mode_idx)

lemma sum_mode_idx_Nil: "sum f (mode_idx []) = f []"
  by (simp add: mode_idx_def)

lemma sum_mode_idx_Cons: "sum f (mode_idx (n # ns)) = (\<Sum>i<n. \<Sum>m\<in>mode_idx ns. f (i # m))"
  using sum_set_Cons[of "{..<n}" "mode_idx ns" f] finite_mode_idx[of ns]
  by (simp add: mode_idx_def)

lemma sum_mode_idx1: "sum f (mode_idx [n]) = (\<Sum>i<n. f [i])"
  by (simp add: sum_mode_idx_Cons sum_mode_idx_Nil)

lemma sum_mode_idx2: "sum f (mode_idx [n, n']) = (\<Sum>i<n. \<Sum>j<n'. f [i, j])"
  by (simp add: sum_mode_idx_Cons sum_mode_idx_Nil)

lemma sum_multi_idx_Nil: "sum f (multi_idx []) = f []"
  by (simp add: multi_idx_def)

lemma sum_multi_idx_Cons:
  "sum f (multi_idx (ms # sh)) = (\<Sum>m\<in>mode_idx ms. \<Sum>j\<in>multi_idx sh. f (m # j))"
  using sum_set_Cons[of "mode_idx ms" "multi_idx sh" f] finite_mode_idx[of ms] finite_multi_idx[of sh]
  by (simp add: multi_idx_def)

lemma sum_multi_idx_append:
  "sum f (multi_idx (sh @ sh')) = (\<Sum>j\<in>multi_idx sh. \<Sum>j'\<in>multi_idx sh'. f (j @ j'))"
proof (induction sh arbitrary: f)
  case Nil
  then show ?case by (simp add: sum_multi_idx_Nil)
next
  case (Cons ms sh)
  show ?case
    by (simp add: sum_multi_idx_Cons Cons.IH)
qed

lemma sum_multi_idx_snoc:
  "sum f (multi_idx (sh @ [ms])) = (\<Sum>j\<in>multi_idx sh. \<Sum>m\<in>mode_idx ms. f (j @ [m]))"
  by (simp add: sum_multi_idx_append sum_multi_idx_Cons sum_multi_idx_Nil)

lemma mode_idx_iff: "m \<in> mode_idx ms \<longleftrightarrow> length m = length ms \<and> (\<forall>i<length ms. m ! i < ms ! i)"
proof (induction ms arbitrary: m)
  case Nil
  then show ?case by (simp add: mode_idx_def)
next
  case (Cons n ns)
  have "m \<in> mode_idx (n # ns) \<longleftrightarrow> (\<exists>i m'. m = i # m' \<and> i < n \<and> m' \<in> mode_idx ns)"
    by (auto simp: mode_idx_def set_Cons_def)
  also have "\<dots> \<longleftrightarrow> length m = length (n # ns) \<and> (\<forall>i<length (n # ns). m ! i < (n # ns) ! i)"
    using Cons.IH by (cases m) (auto simp: nth_Cons split: nat.splits)
  finally show ?case .
qed

lemma multi_idx_length: "j \<in> multi_idx sh \<Longrightarrow> length j = length sh"
  unfolding multi_idx_def
  by (induction sh arbitrary: j) (auto simp: set_Cons_def)

lemma multi_idx_Cons_iff: "m # j \<in> multi_idx (ms # sh) \<longleftrightarrow> m \<in> mode_idx ms \<and> j \<in> multi_idx sh"
  by (auto simp: multi_idx_def set_Cons_def)

lemma multi_idx_append_iff:
  "length j = length sh \<Longrightarrow> j @ j' \<in> multi_idx (sh @ sh') \<longleftrightarrow> j \<in> multi_idx sh \<and> j' \<in> multi_idx sh'"
proof (induction sh arbitrary: j)
  case Nil
  then show ?case by (simp add: multi_idx_def)
next
  case (Cons ms sh)
  then obtain m j0 where "j = m # j0" by (cases j) auto
  then show ?case using Cons by (simp add: multi_idx_Cons_iff)
qed

lemma lch_Nil: "lch G r [] a = (if a = 0 then 1 else 0)"
  by (simp add: lch_def)

lemma lch_snoc: "lch G r (j @ [m]) a = (\<Sum>a'<r (length j). lch G r j a' * G (length j) a' m a)"
  by (simp add: lch_def)

text \<open>Splitting a chain: the product over all cores is the product of a left chain and a
  right chain, summed over the rank index where they meet.\<close>

lemma chain_split:
  assumes "0 < r 0"
  shows "rch G r 0 (j1 @ j2) 0 = (\<Sum>a<r (length j1). lch G r j1 a * rch G r (length j1) j2 a)"
proof (induction j1 arbitrary: j2 rule: rev_induct)
  case Nil
  have "(\<Sum>a<r 0. (if a = 0 then 1 else 0) * rch G r 0 j2 a) = rch G r 0 j2 0"
    using assms by (simp add: sum.delta' if_distrib[of "\<lambda>x. x * _"] cong: if_cong)
  then show ?case by (simp add: lch_Nil)
next
  case (snoc m j1)
  let ?k = "length j1"
  have "rch G r 0 ((j1 @ [m]) @ j2) 0 = rch G r 0 (j1 @ m # j2) 0" by simp
  also have "\<dots> = (\<Sum>a<r ?k. lch G r j1 a * rch G r ?k (m # j2) a)"
    by (rule snoc.IH)
  also have "\<dots> = (\<Sum>a<r ?k. \<Sum>c<r (Suc ?k). lch G r j1 a * G ?k a m c * rch G r (Suc ?k) j2 c)"
    by (simp add: sum_distrib_left mult.assoc)
  also have "\<dots> = (\<Sum>c<r (Suc ?k). \<Sum>a<r ?k. lch G r j1 a * G ?k a m c * rch G r (Suc ?k) j2 c)"
    by (rule sum.swap)
  also have "\<dots> = (\<Sum>c<r (Suc ?k). lch G r (j1 @ [m]) c * rch G r (Suc ?k) j2 c)"
    by (simp add: lch_snoc sum_distrib_right)
  finally show ?case by simp
qed

lemma sum_swap3: "(\<Sum>a\<in>A. \<Sum>b\<in>B. \<Sum>c\<in>C. f a b c) = (\<Sum>c\<in>C. \<Sum>a\<in>A. \<Sum>b\<in>B. f a b c)"
proof -
  have "(\<Sum>a\<in>A. \<Sum>b\<in>B. \<Sum>c\<in>C. f a b c) = (\<Sum>a\<in>A. \<Sum>c\<in>C. \<Sum>b\<in>B. f a b c)"
    by (intro sum.cong refl sum.swap)
  also have "\<dots> = (\<Sum>c\<in>C. \<Sum>a\<in>A. \<Sum>b\<in>B. f a b c)"
    by (rule sum.swap)
  finally show ?thesis .
qed

lemma sum_swap4:
  "(\<Sum>a\<in>A. \<Sum>b\<in>B. \<Sum>c\<in>C. \<Sum>d\<in>D. f a b c d) = (\<Sum>d\<in>D. \<Sum>a\<in>A. \<Sum>b\<in>B. \<Sum>c\<in>C. f a b c d)"
proof -
  have "(\<Sum>a\<in>A. \<Sum>b\<in>B. \<Sum>c\<in>C. \<Sum>d\<in>D. f a b c d) = (\<Sum>a\<in>A. \<Sum>d\<in>D. \<Sum>b\<in>B. \<Sum>c\<in>C. f a b c d)"
    by (intro sum.cong refl sum_swap3)
  also have "\<dots> = (\<Sum>d\<in>D. \<Sum>a\<in>A. \<Sum>b\<in>B. \<Sum>c\<in>C. f a b c d)"
    by (rule sum.swap)
  finally show ?thesis .
qed

lemma LHv_chain:
  assumes r0: "lr 0 = 1" "xr 0 = 1"
  shows "(k = 0 \<longrightarrow> a = 0 \<and> b = 0) \<Longrightarrow>
     LHv U lr X xr sh k a b = (\<Sum>j\<in>multi_idx (map sh [0..<k]). lch U lr j a * lch X xr j b)"
proof (induction k arbitrary: a b)
  case 0
  then show ?case by (simp add: sum_multi_idx_Nil lch_Nil)
next
  case (Suc k)
  define S where "S = multi_idx (map sh [0..<k])"
  define M where "M = mode_idx (sh k)"
  have IH: "LHv U lr X xr sh k a' b' = (\<Sum>j\<in>S. lch U lr j a' * lch X xr j b')"
    if "a' < lr k" "b' < xr k" for a' b'
  proof -
    have "k = 0 \<longrightarrow> a' = 0 \<and> b' = 0" using that r0 by auto
    then show ?thesis unfolding S_def by (rule Suc.IH)
  qed
  have len: "length j = k" if "j \<in> S" for j
    using multi_idx_length[of j] that by (simp add: S_def)
  have "LHv U lr X xr sh (Suc k) a b
      = (\<Sum>a'<lr k. \<Sum>b'<xr k. \<Sum>m\<in>M.
           (\<Sum>j\<in>S. lch U lr j a' * lch X xr j b') * U k a' m a * X k b' m b)"
    using IH by (simp add: M_def)
  also have "\<dots> = (\<Sum>a'<lr k. \<Sum>b'<xr k. \<Sum>m\<in>M. \<Sum>j\<in>S.
           (lch U lr j a' * U k a' m a) * (lch X xr j b' * X k b' m b))"
    by (intro sum.cong refl) (simp add: sum_distrib_right sum_distrib_left mult_ac)
  also have "\<dots> = (\<Sum>j\<in>S. \<Sum>a'<lr k. \<Sum>b'<xr k. \<Sum>m\<in>M.
           (lch U lr j a' * U k a' m a) * (lch X xr j b' * X k b' m b))"
    by (rule sum_swap4)
  also have "\<dots> = (\<Sum>j\<in>S. \<Sum>m\<in>M. \<Sum>a'<lr k. \<Sum>b'<xr k.
           (lch U lr j a' * U k a' m a) * (lch X xr j b' * X k b' m b))"
    by (intro sum.cong refl sum_swap3)
  also have "\<dots> = (\<Sum>j\<in>S. \<Sum>m\<in>M.
           (\<Sum>a'<lr k. lch U lr j a' * U k a' m a) * (\<Sum>b'<xr k. lch X xr j b' * X k b' m b))"
    by (intro sum.cong refl) (simp add: sum_product)
  also have "\<dots> = (\<Sum>j\<in>S. \<Sum>m\<in>M. lch U lr (j @ [m]) a * lch X xr (j @ [m]) b)"
    by (intro sum.cong refl) (simp add: lch_snoc len)
  also have "\<dots> = (\<Sum>j\<in>multi_idx (map sh [0..<Suc k]). lch U lr j a * lch X xr j b)"
    by (simp add: sum_multi_idx_snoc S_def M_def)
  finally show ?case .
qed

lemma RHn_chain:
  assumes "xr (k + n) = 1" "rr (k + n) = 1"
  shows "(n = 0 \<longrightarrow> b = 0 \<and> c = 0) \<Longrightarrow>
     RHn V rr X xr sh n k b c = (\<Sum>j\<in>multi_idx (map sh [k..<k + n]). rch X xr k j b * rch V rr k j c)"
  using assms
proof (induction n arbitrary: k b c)
  case 0
  then show ?case by (simp add: sum_multi_idx_Nil)
next
  case (Suc n)
  define S where "S = multi_idx (map sh [Suc k..<Suc k + n])"
  define M where "M = mode_idx (sh k)"
  have e: "xr (Suc k + n) = 1" "rr (Suc k + n) = 1" using Suc.prems by simp_all
  have IH: "RHn V rr X xr sh n (Suc k) b' d = (\<Sum>j\<in>S. rch X xr (Suc k) j b' * rch V rr (Suc k) j d)"
    if "b' < xr (Suc k)" "d < rr (Suc k)" for b' d
  proof -
    have "n = 0 \<longrightarrow> b' = 0 \<and> d = 0" using that e by auto
    then show ?thesis unfolding S_def using Suc.IH[of b' d "Suc k"] e by simp
  qed
  have up: "[k..<k + Suc n] = k # [Suc k..<Suc k + n]"
    by (simp add: upt_conv_Cons)
  have "RHn V rr X xr sh (Suc n) k b c
      = (\<Sum>m\<in>M. \<Sum>b'<xr (Suc k). \<Sum>d<rr (Suc k).
           X k b m b' * (\<Sum>j\<in>S. rch X xr (Suc k) j b' * rch V rr (Suc k) j d) * V k c m d)"
    using IH by (simp add: M_def)
  also have "\<dots> = (\<Sum>m\<in>M. \<Sum>b'<xr (Suc k). \<Sum>d<rr (Suc k). \<Sum>j\<in>S.
           (X k b m b' * rch X xr (Suc k) j b') * (V k c m d * rch V rr (Suc k) j d))"
    by (intro sum.cong refl) (simp add: sum_distrib_right sum_distrib_left mult_ac)
  also have "\<dots> = (\<Sum>m\<in>M. \<Sum>j\<in>S. \<Sum>b'<xr (Suc k). \<Sum>d<rr (Suc k).
           (X k b m b' * rch X xr (Suc k) j b') * (V k c m d * rch V rr (Suc k) j d))"
    by (intro sum.cong refl sum_swap3)
  also have "\<dots> = (\<Sum>m\<in>M. \<Sum>j\<in>S.
           (\<Sum>b'<xr (Suc k). X k b m b' * rch X xr (Suc k) j b')
         * (\<Sum>d<rr (Suc k). V k c m d * rch V rr (Suc k) j d))"
    by (intro sum.cong refl) (simp add: sum_product)
  also have "\<dots> = (\<Sum>m\<in>M. \<Sum>j\<in>S. rch X xr k (m # j) b * rch V rr k (m # j) c)"
    by simp
  also have "\<dots> = (\<Sum>j\<in>multi_idx (map sh [k..<k + Suc n]). rch X xr k j b * rch V rr k j c)"
    unfolding up by (simp add: sum_multi_idx_Cons S_def M_def)
  finally show ?case .
qed

lemma CTv_sandwich:
  assumes r0: "lr 0 = 1" "xr 0 = 1" and rd: "xr d = 1" "rr d = 1" and k: "k < d"
    and a: "k = 0 \<longrightarrow> a = 0" and c: "Suc k = d \<longrightarrow> c = 0"
  shows "CTv U lr V rr X xr sh d k a m c = sandwich U lr V rr sh d k (\<lambda>j. rch X xr 0 j 0) a m c"
proof -
  define S1 where "S1 = multi_idx (map sh [0..<k])"
  define S2 where "S2 = multi_idx (map sh [Suc k..<d])"
  have kd: "Suc k + (d - Suc k) = d" using k by simp
  have L: "LHv U lr X xr sh k a d' = (\<Sum>j\<in>S1. lch U lr j a * lch X xr j d')" if "d' < xr k" for d'
  proof -
    have "k = 0 \<longrightarrow> a = 0 \<and> d' = 0" using a that r0 by auto
    then show ?thesis unfolding S1_def using LHv_chain[of lr xr k a d' U X sh] r0 by simp
  qed
  have R: "RHn V rr X xr sh (d - Suc k) (Suc k) b c
      = (\<Sum>j\<in>S2. rch X xr (Suc k) j b * rch V rr (Suc k) j c)" if "b < xr (Suc k)" for b
  proof -
    have "d - Suc k = 0 \<longrightarrow> b = 0 \<and> c = 0" using c that rd k by (cases "Suc k = d") auto
    then show ?thesis
      unfolding S2_def using RHn_chain[of xr "Suc k" "d - Suc k" rr b c V X sh] rd kd by simp
  qed
  have len: "length j = k" if "j \<in> S1" for j
    using multi_idx_length[of j] that by (simp add: S1_def)
  have "CTv U lr V rr X xr sh d k a m c
      = (\<Sum>d'<xr k. \<Sum>b<xr (Suc k).
           (\<Sum>j1\<in>S1. lch U lr j1 a * lch X xr j1 d') * X k d' m b
           * (\<Sum>j2\<in>S2. rch X xr (Suc k) j2 b * rch V rr (Suc k) j2 c))"
    unfolding CTv_def using L R by simp
  also have "\<dots> = (\<Sum>d'<xr k. \<Sum>b<xr (Suc k). \<Sum>j1\<in>S1. \<Sum>j2\<in>S2.
           lch U lr j1 a * (lch X xr j1 d' * (X k d' m b * rch X xr (Suc k) j2 b)) * rch V rr (Suc k) j2 c)"
    by (intro sum.cong refl) (simp add: sum_product sum_distrib_left sum_distrib_right mult_ac)
  also have "\<dots> = (\<Sum>j1\<in>S1. \<Sum>j2\<in>S2. \<Sum>d'<xr k. \<Sum>b<xr (Suc k).
           lch U lr j1 a * (lch X xr j1 d' * (X k d' m b * rch X xr (Suc k) j2 b)) * rch V rr (Suc k) j2 c)"
  proof -
    have "(\<Sum>d'<xr k. \<Sum>b<xr (Suc k). \<Sum>j1\<in>S1. \<Sum>j2\<in>S2. f d' b j1 j2)
        = (\<Sum>j1\<in>S1. \<Sum>j2\<in>S2. \<Sum>d'<xr k. \<Sum>b<xr (Suc k). f d' b j1 j2)" for f :: "nat \<Rightarrow> nat \<Rightarrow> nat list list \<Rightarrow> nat list list \<Rightarrow> real"
    proof -
      have "(\<Sum>d'<xr k. \<Sum>b<xr (Suc k). \<Sum>j1\<in>S1. \<Sum>j2\<in>S2. f d' b j1 j2)
          = (\<Sum>j1\<in>S1. \<Sum>d'<xr k. \<Sum>b<xr (Suc k). \<Sum>j2\<in>S2. f d' b j1 j2)"
        by (rule sum_swap3)
      also have "\<dots> = (\<Sum>j1\<in>S1. \<Sum>j2\<in>S2. \<Sum>d'<xr k. \<Sum>b<xr (Suc k). f d' b j1 j2)"
        by (intro sum.cong refl sum_swap3)
      finally show ?thesis .
    qed
    then show ?thesis .
  qed
  also have "\<dots> = (\<Sum>j1\<in>S1. \<Sum>j2\<in>S2.
           lch U lr j1 a * (\<Sum>d'<xr k. lch X xr j1 d' * rch X xr k (m # j2) d') * rch V rr (Suc k) j2 c)"
    by (intro sum.cong refl) (simp add: sum_distrib_left sum_distrib_right mult_ac)
  also have "\<dots> = (\<Sum>j1\<in>S1. \<Sum>j2\<in>S2.
           lch U lr j1 a * rch X xr 0 (j1 @ m # j2) 0 * rch V rr (Suc k) j2 c)"
    using chain_split[of xr X _ "m # _"] r0(2) by (intro sum.cong refl) (simp add: len)
  finally show ?thesis by (simp add: sandwich_def S1_def S2_def)
qed

lemma LTv_sandwich:
  assumes r0: "lr 0 = 1" "xr 0 = 1" and rd: "xr (Suc k) = 1" and a: "k = 0 \<longrightarrow> a = 0"
  shows "LTv U lr X xr sh k a m 0
       = (\<Sum>j1\<in>multi_idx (map sh [0..<k]). lch U lr j1 a * rch X xr 0 (j1 @ [m]) 0)"
proof -
  define S1 where "S1 = multi_idx (map sh [0..<k])"
  have L: "LHv U lr X xr sh k a d' = (\<Sum>j\<in>S1. lch U lr j a * lch X xr j d')" if "d' < xr k" for d'
  proof -
    have "k = 0 \<longrightarrow> a = 0 \<and> d' = 0" using a that r0 by auto
    then show ?thesis unfolding S1_def using LHv_chain[of lr xr k a d' U X sh] r0 by simp
  qed
  have len: "length j = k" if "j \<in> S1" for j
    using multi_idx_length[of j] that by (simp add: S1_def)
  have one: "rch X xr k [m] b = X k b m 0" for b
    using rd by simp
  have "LTv U lr X xr sh k a m 0 = (\<Sum>b<xr k. (\<Sum>j1\<in>S1. lch U lr j1 a * lch X xr j1 b) * X k b m 0)"
    unfolding LTv_def using L by simp
  also have "\<dots> = (\<Sum>b<xr k. \<Sum>j1\<in>S1. lch U lr j1 a * (lch X xr j1 b * rch X xr k [m] b))"
    by (intro sum.cong refl) (simp add: sum_distrib_right sum_distrib_left rd mult_ac)
  also have "\<dots> = (\<Sum>j1\<in>S1. \<Sum>b<xr k. lch U lr j1 a * (lch X xr j1 b * rch X xr k [m] b))"
    by (rule sum.swap)
  also have "\<dots> = (\<Sum>j1\<in>S1. lch U lr j1 a * rch X xr 0 (j1 @ [m]) 0)"
    using chain_split[of xr X _ "[m]"] r0(2)
    by (intro sum.cong refl) (simp add: len sum_distrib_left)
  finally show ?thesis by (simp add: S1_def)
qed

lemma len1E: "length m = length [n::nat] \<Longrightarrow> (\<And>i. m = [i] \<Longrightarrow> P) \<Longrightarrow> P"
  by (auto simp: length_Suc_conv)

lemma len2E: "length m = length [n::nat, n'] \<Longrightarrow> (\<And>i j. m = [i, j] \<Longrightarrow> P) \<Longrightarrow> P"
  by (auto simp: length_Suc_conv)

lemma einsum_rhs_elems:
  assumes "mode_ok mode_str ms" "dims T = s' # a' # ms @ [b']" "dims R = [s', b', d']" "dims V = c' # ms @ [d']"
    and "tf_einsum (''sa'' @ mode_str @ ''b,sbd,c'' @ mode_str @ ''d->sac'') [T, R, V] = Inr t"
  shows "elems t [s, a, c] = (\<Sum>m\<in>mode_idx ms. \<Sum>b<b'. \<Sum>d<d'.
           elems T (s # a # m @ [b]) * elems R [s, b, d] * elems V (c # m @ [d]))"
  using assms
  by (elim mode_okE)
     (auto simp: tf_einsum_def axis_of_def sum_mode_idx1 sum_mode_idx2 mult.assoc)

lemma einsum_lhs_elems:
  assumes "mode_ok mode_str ms" "dims L = [s', a', b']" "dims U = a' # ms @ [c']" "dims T = s' # b' # ms @ [d']"
    and "tf_einsum (''sab,a'' @ mode_str @ ''c,sb'' @ mode_str @ ''d->scd'') [L, U, T] = Inr t"
  shows "elems t [s, c, d] = (\<Sum>a<a'. \<Sum>b<b'. \<Sum>m\<in>mode_idx ms.
           elems L [s, a, b] * elems U (a # m @ [c]) * elems T (s # b # m @ [d]))"
  using assms
  by (elim mode_okE)
     (auto simp: tf_einsum_def axis_of_def sum_mode_idx1 sum_mode_idx2 mult.assoc)

lemma einsum_lhs_tens_elems:
  assumes "mode_ok mode_str ms" "dims L = [s', a', b']" "dims T = s' # b' # ms @ [c']"
    and "length m = length ms"
  shows "tf_einsum (''sab,sb'' @ mode_str @ ''c->sa'' @ mode_str @ ''c'') [L, T] = Inr t \<Longrightarrow>
           elems t (s # a # m @ [c]) = (\<Sum>b<b'. elems L [s, a, b] * elems T (s # b # m @ [c]))"
    and "tf_einsum (''sab,sb'' @ mode_str @ ''c->a'' @ mode_str @ ''c'') [L, T] = Inr t \<Longrightarrow>
           elems t (a # m @ [c]) = (\<Sum>s<s'. \<Sum>b<b'. elems L [s, a, b] * elems T (s # b # m @ [c]))"
  using assms
  by (elim mode_okE; (elim len1E len2E)?;
      auto simp: tf_einsum_def axis_of_def length_Suc_conv mult.assoc)+

lemma len0E: "length m = length ([]::nat list) \<Longrightarrow> (m = [] \<Longrightarrow> P) \<Longrightarrow> P"
  by auto



lemma einsum_common_elems:
  assumes "mode_ok mode_str ms" "dims L = [s', a', d']" "dims T = s' # d' # ms @ [b']" "dims R = [s', b', c']"
    and "length m = length ms"
    and "tf_einsum (''sad,sd'' @ mode_str @ ''b,sbc->sa'' @ mode_str @ ''c'') [L, T, R] = Inr t"
  shows "elems t (s # a # m @ [c])
       = (\<Sum>d<d'. \<Sum>b<b'. elems L [s, a, d] * elems T (s # d # m @ [b]) * elems R [s, b, c])"
  using assms
  by (elim mode_okE; (elim len1E len2E)?;
      auto simp: tf_einsum_def axis_of_def length_Suc_conv mult.assoc)

lemma einsum_u_proj_elems:
  assumes "modes_ok mode_str another ms" "dims U = a' # ms @ [c']"
    and "length m = length ms" "length m' = length ms"
    and "tf_einsum (''a'' @ mode_str @ ''c,b'' @ another @ ''c->a'' @ mode_str @ ''b'' @ another) [U, U] = Inr t"
  shows "elems t (a # m @ b # m') = (\<Sum>c<c'. elems U (a # m @ [c]) * elems U (b # m' @ [c]))"
  using assms
  by (elim modes_okE; (elim len1E len2E)?;
      auto simp: tf_einsum_def axis_of_def length_Suc_conv mult.assoc)

lemma einsum_gauge_elems:
  assumes "modes_ok mode_str another ms" "dims UP = a' # ms @ a' # ms" "dims C = s' # a' # ms @ [d']"
    and "length m' = length ms"
    and "tf_einsum (''a'' @ mode_str @ ''b'' @ another @ '',sa'' @ mode_str @ ''d->b'' @ another @ ''d'') [UP, C] = Inr t"
  shows "elems t (b # m' @ [d])
       = (\<Sum>a<a'. \<Sum>m\<in>mode_idx ms. \<Sum>s<s'. elems UP (a # m @ b # m') * elems C (s # a # m @ [d]))"
  using assms
  by (elim modes_okE; (elim len1E len2E)?;
      auto simp: tf_einsum_def axis_of_def length_Suc_conv sum_mode_idx1 sum_mode_idx2 mult.assoc)

lemma einsum_weighted_elems:
  assumes "mode_ok mode_str ms" "out_ok obs os" "dims C = s' # a' # ms @ [b']" "dims W = s' # os"
    and "length m = length ms" "length oi = length os"
    and "tf_einsum (''sa'' @ mode_str @ ''b,s'' @ obs @ ''->'' @ obs @ ''a'' @ mode_str @ ''b'') [C, W] = Inr t"
  shows "elems t (oi @ a # m @ [b]) = (\<Sum>s<s'. elems C (s # a # m @ [b]) * elems W (s # oi))"
  using assms
  by (elim mode_okE out_okE; (elim len0E len1E len2E)?;
      auto simp: tf_einsum_def axis_of_def length_Suc_conv mult.assoc)

lemma einsum_weighted_gauge_elems:
  assumes "modes_ok mode_str another ms" "out_ok obs os" "dims UP = a' # ms @ a' # ms"
    "dims C = s' # a' # ms @ [d']" "dims W = s' # os"
    and "length m' = length ms" "length oi = length os"
    and "tf_einsum (''a'' @ mode_str @ ''b'' @ another @ '',sa'' @ mode_str @ ''d,s'' @ obs
                         @ ''->'' @ obs @ ''b'' @ another @ ''d'') [UP, C, W] = Inr t"
  shows "elems t (oi @ b # m' @ [d])
       = (\<Sum>a<a'. \<Sum>m\<in>mode_idx ms. \<Sum>s<s'.
            elems UP (a # m @ b # m') * elems C (s # a # m @ [d]) * elems W (s # oi))"
  using assms
  by (elim modes_okE out_okE; (elim len0E len1E len2E)?;
      auto simp: tf_einsum_def axis_of_def length_Suc_conv sum_mode_idx1 sum_mode_idx2 mult.assoc)

lemma einsum_weighted_last_elems:
  assumes "mode_ok mode_str ms" "out_ok obs os" "dims L = [s', a', b']" "dims T = s' # b' # ms @ [c']"
    "dims W = s' # os"
    and "length m = length ms" "length oi = length os"
    and "tf_einsum (''sab,sb'' @ mode_str @ ''c,s'' @ obs @ ''->'' @ obs @ ''a'' @ mode_str @ ''c'') [L, T, W] = Inr t"
  shows "elems t (oi @ a # m @ [c])
       = (\<Sum>s<s'. \<Sum>b<b'. elems L [s, a, b] * elems T (s # b # m @ [c]) * elems W (s # oi))"
  using assms
  by (elim mode_okE out_okE; (elim len0E len1E len2E)?;
      auto simp: tf_einsum_def axis_of_def length_Suc_conv mult.assoc)


lemma idx_join:
  assumes "k < d" "j1 \<in> multi_idx (map sh [0..<k])" "m \<in> mode_idx (sh k)"
    "j2 \<in> multi_idx (map sh [Suc k..<d])"
  shows "j1 @ m # j2 \<in> multi_idx (map sh [0..<d])"
proof -
  have s: "[0..<d] = [0..<k] @ k # [Suc k..<d]"
    using assms(1) by (metis less_imp_le_nat upt_add_eq_append upt_conv_Cons le0 le_add_diff_inverse plus_nat.add_0)
  have len: "length j1 = length (map sh [0..<k])"
    using multi_idx_length[OF assms(2)] .
  show ?thesis
    unfolding s using multi_idx_append_iff[OF len, of "m # j2" "map sh (k # [Suc k..<d])"] assms(2,3,4)
    by (simp add: multi_idx_Cons_iff)
qed

lemma sandwich_cong:
  assumes "k < d" "m \<in> mode_idx (sh k)" "\<And>j. j \<in> multi_idx (map sh [0..<d]) \<Longrightarrow> F j = F' j"
  shows "sandwich U lr V rr sh d k F a m c = sandwich U lr V rr sh d k F' a m c"
proof -
  have "F (j1 @ m # j2) = F' (j1 @ m # j2)"
    if "j1 \<in> multi_idx (map sh [0..<k])" "j2 \<in> multi_idx (map sh [Suc k..<d])" for j1 j2
    using idx_join[of k d j1 sh m j2] assms that by blast
  then show ?thesis
    unfolding sandwich_def by (intro sum.cong refl) simp
qed

lemma sandwich_sum:
  "sandwich U lr V rr sh d k (\<lambda>j. \<Sum>s<S. w s * F s j) a m c
     = (\<Sum>s<S. w s * sandwich U lr V rr sh d k (F s) a m c)"
proof -
  define S1 where "S1 = multi_idx (map sh [0..<k])"
  define S2 where "S2 = multi_idx (map sh [Suc k..<d])"
  have "sandwich U lr V rr sh d k (\<lambda>j. \<Sum>s<S. w s * F s j) a m c
      = (\<Sum>j1\<in>S1. \<Sum>j2\<in>S2. \<Sum>s<S. w s * (lch U lr j1 a * F s (j1 @ m # j2) * rch V rr (Suc k) j2 c))"
    unfolding sandwich_def S1_def S2_def
    by (intro sum.cong refl) (simp add: sum_distrib_left sum_distrib_right mult_ac)
  also have "\<dots> = (\<Sum>s<S. \<Sum>j1\<in>S1. \<Sum>j2\<in>S2. w s * (lch U lr j1 a * F s (j1 @ m # j2) * rch V rr (Suc k) j2 c))"
    by (rule sum_swap3)
  also have "\<dots> = (\<Sum>s<S. w s * sandwich U lr V rr sh d k (F s) a m c)"
    unfolding sandwich_def S1_def S2_def
    by (intro sum.cong refl) (simp add: sum_distrib_left)
  finally show ?thesis .
qed

lemma proj_entry_cong:
  assumes "k < d" "m \<in> mode_idx (sh k)" "\<And>j. j \<in> multi_idx (map sh [0..<d]) \<Longrightarrow> F j = F' j"
  shows "proj_entry U lr V rr sh d k F a m c = proj_entry U lr V rr sh d k F' a m c"
proof -
  have e: "sandwich U lr V rr sh d k F a' m' c' = sandwich U lr V rr sh d k F' a' m' c'"
    if "m' \<in> mode_idx (sh k)" for a' m' c'
    using sandwich_cong[of k d m' sh F F' U lr V rr a' c'] assms(1,3) that by blast
  have "tangent_part U lr sh k (sandwich U lr V rr sh d k F) a m c
      = tangent_part U lr sh k (sandwich U lr V rr sh d k F') a m c"
    unfolding tangent_part_def using e[OF assms(2)] e by simp
  then show ?thesis
    unfolding proj_entry_def using e[OF assms(2)] by simp
qed


lemma LTv_CTv:
  assumes "xr d = 1" "Suc k = d"
  shows "LTv U lr X xr sh k a m 0 = CTv U lr V rr X xr sh d k a m 0"
  using assms unfolding LTv_def CTv_def by auto


lemma project_sum_gauge_form:
  "(\<Sum>s<S. C s a m c * w s)
     - (\<Sum>a''<lr k. \<Sum>m'\<in>mode_idx (sh k). \<Sum>s<S.
          (\<Sum>c'<lr (Suc k). U k a'' m' c' * U k a m c') * C s a'' m' c * w s)
   = tangent_part U lr sh k (\<lambda>a m c. \<Sum>s<S. w s * C s a m c) a m c"
proof -
  define M where "M = mode_idx (sh k)"
  define g where "g a'' m' s c' = U k a m c' * U k a'' m' c' * (w s * C s a'' m' c)" for a'' m' s c'
  have "(\<Sum>a''<lr k. \<Sum>m'\<in>M. \<Sum>s<S. (\<Sum>c'<lr (Suc k). U k a'' m' c' * U k a m c') * C s a'' m' c * w s)
      = (\<Sum>a''<lr k. \<Sum>m'\<in>M. \<Sum>s<S. \<Sum>c'<lr (Suc k). g a'' m' s c')"
    unfolding g_def
    by (intro sum.cong refl) (simp add: sum_distrib_left sum_distrib_right mult_ac)
  also have "\<dots> = (\<Sum>c'<lr (Suc k). \<Sum>a''<lr k. \<Sum>m'\<in>M. \<Sum>s<S. g a'' m' s c')"
    by (rule sum_swap4)
  also have "\<dots> = (\<Sum>a'<lr (Suc k). \<Sum>a''<lr k. \<Sum>m'\<in>M. U k a m a' * U k a'' m' a' * (\<Sum>s<S. w s * C s a'' m' c))"
    unfolding g_def
    by (intro sum.cong refl) (simp add: sum_distrib_left mult_ac)
  finally show ?thesis
    unfolding tangent_part_def M_def by (simp add: mult.commute)
qed

lemma broadcast_index_in_range:
  assumes "ix \<in> mode_idx ds"
  shows "broadcast_index ds ix = ix"
proof -
  have l: "length ix = length ds" and r: "\<forall>i<length ds. ix ! i < ds ! i"
    using assms by (auto simp: mode_idx_iff)
  show ?thesis
    unfolding broadcast_index_def
    using l r by (intro nth_equalityI) auto
qed

lemma sub_elems:
  assumes "dims a = ds" "dims b = ds" "tf_sub a b = Inr t" "ix \<in> mode_idx ds"
  shows "elems t ix = elems a ix - elems b ix"
  using assms broadcast_index_in_range[OF assms(4)]
  by (auto simp: tf_sub_def broadcast_rev_same)

lemma reduce_sum0_elems:
  assumes "dims a = s # ds" "tf_reduce_sum0 a = Inr t"
  shows "elems t ix = (\<Sum>s'<s. elems a (s' # ix))"
  using assms by (auto simp: tf_reduce_sum0_def)

lemma prepare_rhs_vals:
  assumes mo: "\<And>k. mode_ok mode_str (ms k)"
    and W: "length (tt_cores what) = n" "\<And>k. k < n \<Longrightarrow> dims (tt_cores what ! k) = s # xr ! k # ms k @ [xr ! (k + 1)]"
    and V: "length (tt_cores right) = n" "\<And>k. k < n \<Longrightarrow> dims (tt_cores right ! k) = rr ! k # ms k @ [rr ! (k + 1)]"
    and ends: "xr ! n = 1" "rr ! n = 1"
  shows "\<exists>rhs. prepare_rhs mode_str what right n s = Inr rhs \<and> length rhs = n + 1
           \<and> (\<forall>j. 1 \<le> j \<and> j \<le> n \<longrightarrow> (\<exists>t. rhs ! j = Some t \<and> dims t = [s, xr ! j, rr ! j]
                \<and> (\<forall>s' b c. elems t [s', b, c]
                     = RHn (acore [] (tt_cores right)) ((!) rr) (acore [s'] (tt_cores what)) ((!) xr) ms
                         (n - j) j b c)))"
proof -
  let ?acc = "(replicate (n + 1) None)[n := Some (tf_ones [s, 1, 1])]"
  let ?P = "\<lambda>j t. dims t = [s, xr ! j, rr ! j]
                \<and> (\<forall>s' b c. elems t [s', b, c]
                     = RHn (acore [] (tt_cores right)) ((!) rr) (acore [s'] (tt_cores what)) ((!) xr) ms
                         (n - j) j b c)"
  have step: "\<exists>t. rhs_step mode_str what right j acc' = Inr (acc'[j := Some t]) \<and> ?P j t"
    if j1: "1 \<le> j" and jn: "j < n" and la: "length acc' = n + 1" and nx: "acc' ! (j + 1) = Some t'" and Pn: "?P (j + 1) t'" for j acc' t'
  proof -
    have g: "get_acc acc' (j + 1) = Inr t'" using jn la nx by (intro get_acc_Some) auto
    have dn: "dims t' = [s, xr ! (j + 1), rr ! (j + 1)]" using Pn by simp
    obtain t where t: "tf_einsum (''sa'' @ mode_str @ ''b,sbd,c'' @ mode_str @ ''d->sac'')
        [tt_cores what ! j, t', tt_cores right ! j] = Inr t" "dims t = [s, xr ! j, rr ! j]"
      using einsum_rhs_dims[OF mo W(2)[OF jn] dn V(2)[OF jn]] by blast
    have sn: "n - j = Suc (n - (j + 1))" using jn by simp
    have "elems t [s', b, c]
        = RHn (acore [] (tt_cores right)) ((!) rr) (acore [s'] (tt_cores what)) ((!) xr) ms (n - j) j b c"
      for s' b c
      unfolding sn
      using einsum_rhs_elems[OF mo W(2)[OF jn] dn V(2)[OF jn] t(1), of s' b c] Pn
      by (simp add: acore_def)
    then show ?thesis
      unfolding rhs_step_def using jn W(1) V(1) g t
      by (auto simp: py_nth_def bindE_def)
  qed
  have "\<exists>acc'. foldE (rhs_step mode_str what right) (rev [1..<n]) ?acc = Inr acc' \<and> length acc' = n + 1
           \<and> (\<forall>j. n \<le> j \<longrightarrow> acc' ! j = ?acc ! j)
           \<and> (\<forall>j. 1 \<le> j \<and> j < n \<longrightarrow> (\<exists>t. acc' ! j = Some t \<and> ?P j t))"
    by (rule foldE_down[where tm = "tf_ones [s, 1, 1]" and P = ?P])
       (use step ends in \<open>auto simp: tf_ones_def simp del: replicate.simps\<close>)
  then obtain acc' where acc': "foldE (rhs_step mode_str what right) (rev [1..<n]) ?acc = Inr acc'"
    "length acc' = n + 1" "\<forall>j. n \<le> j \<longrightarrow> acc' ! j = ?acc ! j"
    "\<forall>j. 1 \<le> j \<and> j < n \<longrightarrow> (\<exists>t. acc' ! j = Some t \<and> ?P j t)" by blast
  have an: "acc' ! n = Some (tf_ones [s, 1, 1])" using acc'(3) by (simp del: replicate.simps)
  have "?P n (tf_ones [s, 1, 1])" using ends by (simp add: tf_ones_def)
  then have "\<forall>j. 1 \<le> j \<and> j \<le> n \<longrightarrow> (\<exists>t. acc' ! j = Some t \<and> ?P j t)"
    using acc'(4) an by (metis le_neq_implies_less)
  then show ?thesis
    unfolding prepare_rhs_def using acc'(1,2) by blast
qed

lemma prepare_lhs_vals:
  assumes mo: "\<And>k. mode_ok mode_str (ms k)"
    and W: "length (tt_cores what) = n" "\<And>k. k < n \<Longrightarrow> dims (tt_cores what ! k) = s # xr ! k # ms k @ [xr ! (k + 1)]"
    and U: "length (tt_cores left) = n" "\<And>k. k < n \<Longrightarrow> dims (tt_cores left ! k) = lr ! k # ms k @ [lr ! (k + 1)]"
    and ends: "xr ! 0 = 1" "lr ! 0 = 1"
  shows "\<exists>lhs. prepare_lhs mode_str what left n s = Inr lhs \<and> length lhs = n + 1
           \<and> (\<forall>j. j \<le> n - 1 \<longrightarrow> (\<exists>t. lhs ! j = Some t \<and> dims t = [s, lr ! j, xr ! j]
                \<and> (\<forall>s' a b. elems t [s', a, b]
                     = LHv (acore [] (tt_cores left)) ((!) lr) (acore [s'] (tt_cores what)) ((!) xr) ms
                         j a b)))"
proof -
  let ?acc = "(replicate (n + 1) None)[0 := Some (tf_ones [s, 1, 1])]"
  let ?P = "\<lambda>j t. dims t = [s, lr ! j, xr ! j]
                \<and> (\<forall>s' a b. elems t [s', a, b]
                     = LHv (acore [] (tt_cores left)) ((!) lr) (acore [s'] (tt_cores what)) ((!) xr) ms
                         j a b)"
  have step: "\<exists>t. lhs_step mode_str what left j acc' = Inr (acc'[j + 1 := Some t]) \<and> ?P (j + 1) t"
    if j1: "j < n - 1" and la: "length acc' = n + 1" and nx: "acc' ! j = Some t'" and Pn: "?P j t'" for j acc' t'
  proof -
    have jn: "j < n" using j1 by simp
    have g: "get_acc acc' j = Inr t'" using la nx jn by (intro get_acc_Some) auto
    have dn: "dims t' = [s, lr ! j, xr ! j]" using Pn by simp
    obtain t where t: "tf_einsum (''sab,a'' @ mode_str @ ''c,sb'' @ mode_str @ ''d->scd'')
        [t', tt_cores left ! j, tt_cores what ! j] = Inr t" "dims t = [s, lr ! (j + 1), xr ! (j + 1)]"
      using einsum_lhs_dims[OF mo dn U(2)[OF jn] W(2)[OF jn]] by blast
    have "elems t [s', c, d]
        = LHv (acore [] (tt_cores left)) ((!) lr) (acore [s'] (tt_cores what)) ((!) xr) ms (j + 1) c d"
      for s' c d
      using einsum_lhs_elems[OF mo dn U(2)[OF jn] W(2)[OF jn] t(1), of s' c d] Pn
      by (simp add: acore_def)
    then show ?thesis
      unfolding lhs_step_def using jn W(1) U(1) g t
      by (auto simp: py_nth_def bindE_def)
  qed
  have "\<exists>acc'. foldE (lhs_step mode_str what left) [0..<n - 1] ?acc = Inr acc' \<and> length acc' = n + 1
           \<and> (\<forall>j. j \<le> n - 1 \<longrightarrow> (\<exists>t. acc' ! j = Some t \<and> ?P j t))"
    by (rule foldE_up[where tz = "tf_ones [s, 1, 1]" and P = ?P])
       (use step ends in \<open>auto simp: tf_ones_def simp del: replicate.simps\<close>)
  then show ?thesis
    unfolding prepare_lhs_def by blast
qed

lemma common_sum_fun:
  "common_sum U lr V rr X xr sh d k s w = (\<lambda>a m c. \<Sum>s'<s. w s' * CTv U lr V rr (X s') xr sh d k a m c)"
  by (intro ext) (simp add: common_sum_def)

lemma mode_idx_Cons_iff: "i # m \<in> mode_idx (n # ns) \<longleftrightarrow> i < n \<and> m \<in> mode_idx ns"
  by (auto simp: mode_idx_def set_Cons_def)

lemma mode_idx_append_iff:
  "length a = length as \<Longrightarrow> a @ b \<in> mode_idx (as @ bs) \<longleftrightarrow> a \<in> mode_idx as \<and> b \<in> mode_idx bs"
proof (induction as arbitrary: a)
  case Nil
  then show ?case by (simp add: mode_idx_def)
next
  case (Cons n ns)
  then obtain i a' where a: "a = i # a'" "length a' = length ns" by (cases a) auto
  show ?case using Cons.IH[OF a(2)] by (simp add: a(1) mode_idx_Cons_iff)
qed

lemma mode_idx_length: "m \<in> mode_idx ms \<Longrightarrow> length m = length ms"
  by (simp add: mode_idx_iff)

lemma mode_idx_core:
  assumes "length oi = length os"
  shows "oi @ a # m @ [c] \<in> mode_idx (os @ r # ms @ [r'])
         \<longleftrightarrow> oi \<in> mode_idx os \<and> a < r \<and> m \<in> mode_idx ms \<and> c < r'"
proof -
  have "m @ [c] \<in> mode_idx (ms @ [r']) \<longleftrightarrow> m \<in> mode_idx ms \<and> c < r'"
  proof (cases "length m = length ms")
    case True
    have "[c] \<in> mode_idx [r'] \<longleftrightarrow> c < r'" by (auto simp: mode_idx_def set_Cons_def)
    then show ?thesis
      using mode_idx_append_iff[OF True, of "[c]" "[r']"] by simp
  next
    case False
    then show ?thesis
      using mode_idx_length[of "m @ [c]" "ms @ [r']"] mode_idx_length[of m ms] by auto
  qed
  then show ?thesis
    using mode_idx_append_iff[OF assms, of "a # m @ [c]" "r # ms @ [r']"]
    by (simp add: mode_idx_Cons_iff)
qed

lemma project_sum_proj_core_vals:
  assumes mo: "modes_ok mode_str another (sh k)" and oo: "out_ok obs os" and k: "k < n"
    and L: "get_acc lhs k = Inr L" "dims L = [s, lr k, xr k]"
      "\<And>s' a b. elems L [s', a, b] = LHv U lr (X s') xr sh k a b"
    and T: "dims tens = s # xr k # sh k @ [xr (Suc k)]"
      "\<And>s' a m b. X s' k a m b = elems tens (s' # a # m @ [b])"
    and U: "dims left = lr k # sh k @ [lr (Suc k)]"
      "\<And>a m b. U k a m b = elems left (a # m @ [b])"
    and W: "case weights of None \<Rightarrow> os = [] | Some w \<Rightarrow> dims w = s # os"
    and inner: "k < n - 1 \<Longrightarrow> \<exists>R. get_acc rhs (k + 1) = Inr R \<and> dims R = [s, xr (Suc k), rr (Suc k)]
                  \<and> (\<forall>s' b c. elems R [s', b, c] = RHn V rr (X s') xr sh (n - Suc k) (Suc k) b c)"
    and last: "xr n = 1" "rr n = 1"
    and run: "project_sum_proj_core mode_str another obs weights n k lhs rhs tens left = Inr p"
    and idx: "length oi = length os" "oi \<in> mode_idx os" "a < lr k" "m \<in> mode_idx (sh k)" "c < rr (Suc k)"
  shows "elems p (oi @ a # m @ [c])
       = (let Cw = common_sum U lr V rr X xr sh n k s
                     (\<lambda>s'. case weights of None \<Rightarrow> 1 | Some w \<Rightarrow> elems w (s' # oi))
          in if k < n - 1 then tangent_part U lr sh k Cw a m c else Cw a m c)"
proof (cases "k < n - 1")
  case True
  note mo1 = modes_ok_mode_ok[OF mo]
  from inner[OF True] obtain R where R: "get_acc rhs (k + 1) = Inr R" "dims R = [s, xr (Suc k), rr (Suc k)]"
    "\<And>s' b c. elems R [s', b, c] = RHn V rr (X s') xr sh (n - Suc k) (Suc k) b c" by blast
  obtain ct where ct: "tf_einsum (''sad,sd'' @ mode_str @ ''b,sbc->sa'' @ mode_str @ ''c'') [L, tens, R] = Inr ct"
    "dims ct = s # lr k # sh k @ [rr (Suc k)]"
    using einsum_common_dims[OF mo1 L(2) T(1) R(2)] by blast
  have ctv: "elems ct (s' # a' # m' @ [c']) = CTv U lr V rr (X s') xr sh n k a' m' c'"
    if "length m' = length (sh k)" for s' a' m' c'
    using einsum_common_elems[OF mo1 L(2) T(1) R(2) that ct(1), of s' a' c']
    by (simp add: CTv_def L(3) T(2) R(3))
  obtain u where u: "tf_einsum (''a'' @ mode_str @ ''c,b'' @ another @ ''c->a'' @ mode_str @ ''b'' @ another) [left, left] = Inr u"
    "dims u = lr k # sh k @ lr k # sh k"
    using einsum_u_proj_dims[OF mo U(1)] by blast
  have uv: "elems u (a' # m' @ b' # m'') = (\<Sum>c'<lr (Suc k). U k a' m' c' * U k b' m'' c')"
    if "length m' = length (sh k)" "length m'' = length (sh k)" for a' m' b' m''
    using einsum_u_proj_elems[OF mo U(1) that u(1), of a' b'] by (simp add: U(2))
  have lm: "length m = length (sh k)" by (rule mode_idx_length[OF idx(4)])
  show ?thesis
  proof (cases weights)
    case None
    with W idx(1) have os: "os = []" "oi = []" by simp_all
    obtain p0 where p0: "tf_reduce_sum0 ct = Inr p0" "dims p0 = lr k # sh k @ [rr (Suc k)]"
      using reduce_sum0_dims[OF ct(2)] by blast
    obtain g where g: "tf_einsum (''a'' @ mode_str @ ''b'' @ another @ '',sa'' @ mode_str @ ''d->b'' @ another @ ''d'') [u, ct] = Inr g"
      "dims g = lr k # sh k @ [rr (Suc k)]"
      using einsum_gauge_dims[OF mo u(2) ct(2)] by blast
    have pe: "p = \<lparr>dims = dims p, elems = elems p\<rparr>" by simp
    have sub: "tf_sub p0 g = Inr p"
      using run True None os L(1) R(1) ct(1) u(1) p0(1) g(1)
      unfolding project_sum_proj_core_def by (simp add: bindE_def)
    have inr: "a # m @ [c] \<in> mode_idx (lr k # sh k @ [rr (Suc k)])"
      using mode_idx_core[of "[]" "[]" a m c "lr k" "sh k" "rr (Suc k)"] idx by (simp add: mode_idx_def)
    have "elems p (a # m @ [c]) = elems p0 (a # m @ [c]) - elems g (a # m @ [c])"
      by (rule sub_elems[OF p0(2) g(2) sub inr])
    also have "elems p0 (a # m @ [c]) = (\<Sum>s'<s. CTv U lr V rr (X s') xr sh n k a m c * 1)"
      using reduce_sum0_elems[OF ct(2) p0(1), of "a # m @ [c]"] ctv[OF lm] by simp
    also have "elems g (a # m @ [c]) = (\<Sum>a''<lr k. \<Sum>m'\<in>mode_idx (sh k). \<Sum>s'<s.
          (\<Sum>c'<lr (Suc k). U k a'' m' c' * U k a m c') * CTv U lr V rr (X s') xr sh n k a'' m' c * 1)"
      unfolding einsum_gauge_elems[OF mo u(2) ct(2) lm g(1), of a c]
      by (intro sum.cong refl) (simp add: ctv uv mode_idx_length lm)
    finally show ?thesis
      unfolding project_sum_gauge_form[where S = s and C = "\<lambda>s' a m c. CTv U lr V rr (X s') xr sh n k a m c"
          and w = "\<lambda>_. 1"]
      using True None os by (simp add: common_sum_fun)
  next
    case (Some w)
    with W have w: "dims w = s # os" by simp
    obtain p0 where p0: "tf_einsum (''sa'' @ mode_str @ ''b,s'' @ obs @ ''->'' @ obs @ ''a'' @ mode_str @ ''b'') [ct, w] = Inr p0"
      "dims p0 = os @ lr k # sh k @ [rr (Suc k)]"
      using einsum_weighted_dims[OF mo1 oo ct(2) w] by blast
    obtain g where g: "tf_einsum (''a'' @ mode_str @ ''b'' @ another @ '',sa'' @ mode_str @ ''d,s'' @ obs
                         @ ''->'' @ obs @ ''b'' @ another @ ''d'') [u, ct, w] = Inr g"
      "dims g = os @ lr k # sh k @ [rr (Suc k)]"
      using einsum_weighted_gauge_dims[OF mo oo u(2) ct(2) w] by blast
    have sub: "tf_sub p0 g = Inr p"
      using run True Some L(1) R(1) ct(1) u(1) p0(1) g(1)
      unfolding project_sum_proj_core_def by (simp add: bindE_def)
    have inr: "oi @ a # m @ [c] \<in> mode_idx (os @ lr k # sh k @ [rr (Suc k)])"
      using mode_idx_core[OF idx(1), of a m c "lr k" "sh k" "rr (Suc k)"] idx by simp
    have "elems p (oi @ a # m @ [c]) = elems p0 (oi @ a # m @ [c]) - elems g (oi @ a # m @ [c])"
      by (rule sub_elems[OF p0(2) g(2) sub inr])
    also have "elems p0 (oi @ a # m @ [c]) = (\<Sum>s'<s. CTv U lr V rr (X s') xr sh n k a m c * elems w (s' # oi))"
      using einsum_weighted_elems[OF mo1 oo ct(2) w lm idx(1) p0(1), of a c] ctv[OF lm] by simp
    also have "elems g (oi @ a # m @ [c]) = (\<Sum>a''<lr k. \<Sum>m'\<in>mode_idx (sh k). \<Sum>s'<s.
          (\<Sum>c'<lr (Suc k). U k a'' m' c' * U k a m c') * CTv U lr V rr (X s') xr sh n k a'' m' c * elems w (s' # oi))"
      unfolding einsum_weighted_gauge_elems[OF mo oo u(2) ct(2) w lm idx(1) g(1), of a c]
      by (intro sum.cong refl) (simp add: ctv uv mode_idx_length lm)
    finally show ?thesis
      unfolding project_sum_gauge_form[where S = s and C = "\<lambda>s' a m c. CTv U lr V rr (X s') xr sh n k a m c"
          and w = "\<lambda>s'. elems w (s' # oi)"]
      using True Some by (simp add: common_sum_fun)
  qed
next
  case False
  with k have kl: "k = n - 1" "Suc k = n" by auto
  note mo1 = modes_ok_mode_ok[OF mo]
  have lm: "length m = length (sh k)" by (rule mode_idx_length[OF idx(4)])
  have c0: "c = 0" using idx(5) kl(2) last(2) by simp
  have lt: "(\<Sum>b<xr k. LHv U lr (X s') xr sh k a b * X s' k b m 0) = CTv U lr V rr (X s') xr sh n k a m 0" for s'
    using LTv_CTv[where xr = xr and d = n and k = k and U = U and lr = lr and X = "X s'" and sh = sh
        and a = a and m = m and V = V and rr = rr] last(1) kl(2)
    by (simp add: LTv_def)
  show ?thesis
  proof (cases weights)
    case None
    with W idx(1) have os: "os = []" "oi = []" by simp_all
    have e: "tf_einsum (''sab,sb'' @ mode_str @ ''c->a'' @ mode_str @ ''c'') [L, tens] = Inr p"
      using run False kl None os L(1) unfolding project_sum_proj_core_def by (simp add: bindE_def)
    have "elems p (a # m @ [c]) = (\<Sum>s'<s. \<Sum>b<xr k. elems L [s', a, b] * elems tens (s' # b # m @ [c]))"
      by (rule einsum_lhs_tens_elems(2)[OF mo1 L(2) T(1) lm e])
    then show ?thesis
      using False None os c0 lt by (simp add: common_sum_fun L(3) T(2)[symmetric])
  next
    case (Some w)
    with W have w: "dims w = s # os" by simp
    have e: "tf_einsum (''sab,sb'' @ mode_str @ ''c,s'' @ obs @ ''->'' @ obs @ ''a'' @ mode_str @ ''c'') [L, tens, w] = Inr p"
      using run False kl Some L(1) unfolding project_sum_proj_core_def by (simp add: bindE_def)
    have "elems p (oi @ a # m @ [c])
        = (\<Sum>s'<s. \<Sum>b<xr k. elems L [s', a, b] * elems tens (s' # b # m @ [c]) * elems w (s' # oi))"
      by (rule einsum_weighted_last_elems[OF mo1 oo L(2) T(1) w lm idx(1) e])
    also have "\<dots> = (\<Sum>s'<s. elems w (s' # oi) * (\<Sum>b<xr k. LHv U lr (X s') xr sh k a b * X s' k b m 0))"
      by (intro sum.cong refl) (simp add: L(3) T(2)[symmetric] c0 sum_distrib_left mult_ac)
    finally show ?thesis
      using False Some lt c0 by (simp add: common_sum_fun)
  qed
qed


text \<open>The projection core is a function of the full tensor: the weighted sum of the
  full tensors of the batch, contracted with the chains of the two tangent bases.\<close>

lemma proj_core_entry:
  assumes r0: "lr 0 = 1" "xr 0 = 1" and rd: "xr d = 1" "rr d = 1" and k: "k < d"
    and idx: "a < lr k" "c < rr (Suc k)"
  shows "(let Cw = common_sum U lr V rr X xr sh d k s w
          in if k < d - 1 then tangent_part U lr sh k Cw a m c else Cw a m c)
       = proj_entry U lr V rr sh d k (\<lambda>j. \<Sum>s'<s. w s' * rch (X s') xr 0 j 0) a m c"
proof -
  let ?F = "\<lambda>j. \<Sum>s'<s. w s' * rch (X s') xr 0 j 0"
  have c: "Suc k = d \<longrightarrow> c = 0" using idx(2) rd(2) by auto
  have cs: "common_sum U lr V rr X xr sh d k s w a' m' c = sandwich U lr V rr sh d k ?F a' m' c"
    if "a' < lr k" for a' m'
  proof -
    have a: "k = 0 \<longrightarrow> a' = 0" using that r0(1) by auto
    have "CTv U lr V rr (X s') xr sh d k a' m' c
        = sandwich U lr V rr sh d k (\<lambda>j. rch (X s') xr 0 j 0) a' m' c" for s'
      by (rule CTv_sandwich[where lr = lr and xr = xr and d = d and rr = rr and k = k and a = a'
            and c = c and U = U and V = V and X = "X s'" and sh = sh and m = m', OF r0 rd k a c])
    then show ?thesis
      by (simp add: common_sum_def sandwich_sum)
  qed
  have "tangent_part U lr sh k (common_sum U lr V rr X xr sh d k s w) a m c
      = tangent_part U lr sh k (sandwich U lr V rr sh d k ?F) a m c"
    unfolding tangent_part_def using cs idx(1) by simp
  moreover have "k < d - 1 \<longleftrightarrow> Suc k < d" by auto
  ultimately show ?thesis
    unfolding proj_entry_def Let_def using cs[OF idx(1)] by simp
qed

lemma concat_elems:
  assumes "dims a = pre @ x # post" "dims b = pre @ y # post" "axis = length pre"
    "tf_concat a b axis = Inr t" "length ip = length pre"
  shows "elems t (ip @ i # iq) = (if i < x then elems a (ip @ i # iq) else elems b (ip @ (i - x) # iq))"
  using assms by (auto simp: tf_concat_def list_update_append nth_append)

lemma map2_mod_in_range:
  assumes "m \<in> mode_idx ms"
  shows "map2 (\<lambda>i d. i mod d) m ms = m"
  using assms by (intro nth_equalityI) (auto simp: mode_idx_iff)

lemma extend_core_elems:
  assumes "length ms = (if matrix then 2 else 1)" "dims c = r # ms @ [r']"
    "extend_core oib matrix obs c = Inr t"
    "oi \<in> mode_idx (if oib then [obs] else [])" "a < r" "m \<in> mode_idx ms" "b < r'"
  shows "elems t (oi @ a # m @ [b]) = elems c (a # m @ [b])"
proof (cases oib)
  case False
  then show ?thesis using assms(3,4) by (simp add: extend_core_def mode_idx_def)
next
  case True
  then obtain o' where oi: "oi = [o']" using assms(4) by (auto simp: mode_idx_def set_Cons_def)
  have lm: "length m = length ms" by (rule mode_idx_length[OF assms(6)])
  have z: "map2 (\<lambda>i d. i mod d) (m @ [b]) (ms @ [r']) = m @ [b]"
    using lm assms(7) map2_mod_in_range[OF assms(6)] by simp
  show ?thesis
    using assms(1,2,3,5) True z
    by (cases matrix) (auto simp: extend_core_def tf_tile_def tf_expand_dims0_def oi split: if_splits)
qed

lemma assemble_core_elems:
  assumes lenms: "length ms = (if matrix then 2 else 1)"
    and P: "dims proj = (if oib then [obs] else []) @ lk # ms @ [rk1]"
    and U: "dims left = lk # ms @ [lk1]" and V: "dims right = rk # ms @ [rk1]"
    and rd: "right_rank_dim = (if matrix then 3 else 2) + (if oib then 1 else 0)"
    and ld: "left_rank_dim = (if oib then 1 else 0)"
    and raw: "length raw = (if matrix then 2 else 1)" "\<forall>row\<in>set raw. k < length row"
      "ms = map (\<lambda>row. row ! k) raw"
    and ranks: "k < length rrs" "rrs ! k = rk" "k + 1 < length lrs" "lrs ! (k + 1) = lk1"
    and run: "assemble_core oib matrix obs right_rank_dim left_rank_dim n raw rrs lrs k proj left right = Inr c"
    and idx: "oi \<in> mode_idx (if oib then [obs] else [])" "a < (if k = 0 then lk else rk + lk)"
      "m \<in> mode_idx ms" "c' < (if k \<noteq> 0 \<and> k = n - 1 then rk1 else rk1 + lk1)"
  shows "elems c (oi @ a # m @ [c'])
       = (if k = 0 then (if c' < rk1 then elems proj (oi @ a # m @ [c']) else elems left (a # m @ [c' - rk1]))
          else if k = n - 1 then (if a < rk then elems right (a # m @ [c']) else elems proj (oi @ (a - rk) # m @ [c']))
          else if a < rk then (if c' < rk1 then elems right (a # m @ [c']) else 0)
          else (if c' < rk1 then elems proj (oi @ (a - rk) # m @ [c']) else elems left ((a - rk) # m @ [c' - rk1])))"
proof -
  let ?bp = "if oib then [obs] else []"
  obtain el where el: "extend_core oib matrix obs left = Inr el" "dims el = ?bp @ lk # ms @ [lk1]"
    using extend_core_dims[OF lenms U] by blast
  obtain er where er: "extend_core oib matrix obs right = Inr er" "dims er = ?bp @ rk # ms @ [rk1]"
    using extend_core_dims[OF lenms V] by blast
  have elv: "elems el (oi @ a' # m @ [b]) = elems left (a' # m @ [b])" if "a' < lk" "b < lk1" for a' b
    by (rule extend_core_elems[OF lenms U el(1) idx(1) that(1) idx(3) that(2)])
  have erv: "elems er (oi @ a' # m @ [b]) = elems right (a' # m @ [b])" if "a' < rk" "b < rk1" for a' b
    by (rule extend_core_elems[OF lenms V er(1) idx(1) that(1) idx(3) that(2)])
  have lm: "length m = length ms" by (rule mode_idx_length[OF idx(3)])
  have lo: "length oi = length ?bp" using mode_idx_length[OF idx(1)] .
  have rdl: "right_rank_dim = length (?bp @ lk # ms)" "right_rank_dim = length (?bp @ rk # ms)"
    using rd lenms by auto
  have ldl: "left_rank_dim = length ?bp" using ld by auto
  have lip: "length (oi @ a' # m) = length (?bp @ lk # ms)" "length (oi @ a' # m) = length (?bp @ rk # ms)" for a'
    using lm lo by auto
  show ?thesis
  proof (cases "k = 0")
    case True
    have cc: "tf_concat proj el right_rank_dim = Inr c"
      using run True el(1) er(1) unfolding assemble_core_def by (simp add: bindE_def)
    have "elems c ((oi @ a # m) @ c' # [])
        = (if c' < rk1 then elems proj ((oi @ a # m) @ c' # []) else elems el ((oi @ a # m) @ (c' - rk1) # []))"
      by (rule concat_elems[of proj "?bp @ lk # ms" rk1 "[]" el lk1, OF _ _ rdl(1) cc lip(1)])
         (use P el(2) in auto)
    then show ?thesis
      using True idx(2,4) elv[of a "c' - rk1"] by auto
  next
    case k0: False
    show ?thesis
    proof (cases "k = n - 1")
      case True
      have cc: "tf_concat er proj left_rank_dim = Inr c"
        using run True k0 el(1) er(1) unfolding assemble_core_def by (simp add: bindE_def)
      have "elems c (oi @ a # (m @ [c']))
          = (if a < rk then elems er (oi @ a # (m @ [c'])) else elems proj (oi @ (a - rk) # (m @ [c'])))"
        by (rule concat_elems[of er ?bp rk "ms @ [rk1]" proj lk, OF _ _ ldl cc lo])
           (use P er(2) in auto)
      then show ?thesis
        using True k0 idx(2,4) erv[of a c'] by auto
    next
      case False
      let ?shape0 = "rk # ms @ [lk1]"
      have shape0: "(if matrix
              then bindE (py_nth raw 0) (\<lambda>row0. bindE (py_nth row0 k) (\<lambda>mode_size_n.
                   bindE (py_nth raw 1) (\<lambda>row1. bindE (py_nth row1 k) (\<lambda>mode_size_m.
                   Inr [rk, mode_size_n, mode_size_m, lk1]))))
              else bindE (py_nth raw 0) (\<lambda>row0. bindE (py_nth row0 k) (\<lambda>mode_size.
                   Inr [rk, mode_size, lk1]))) = Inr ?shape0"
        using raw by (cases matrix) (auto simp: py_nth_def bindE_def length_Suc_conv eval_nat_numeral)
      let ?zeros = "tf_zeros (if oib then [obs] @ ?shape0 else ?shape0)"
      have z: "dims ?zeros = ?bp @ rk # ms @ [lk1]" by (simp add: tf_zeros_def)
      obtain up where up: "tf_concat er ?zeros right_rank_dim = Inr up"
        "dims up = (?bp @ rk # ms) @ (rk1 + lk1) # []"
        using concat_dims[of er "?bp @ rk # ms" rk1 "[]" ?zeros lk1 right_rank_dim] er(2) z rdl(2) by auto
      obtain lo' where lo': "tf_concat proj el right_rank_dim = Inr lo'"
        "dims lo' = (?bp @ lk # ms) @ (rk1 + lk1) # []"
        using concat_dims[of proj "?bp @ lk # ms" rk1 "[]" el lk1 right_rank_dim] P el(2) rdl(1) by auto
      have cc: "tf_concat up lo' left_rank_dim = Inr c"
        using run False k0 el(1) er(1) ranks shape0 up(1) lo'(1)
        unfolding assemble_core_def Let_def by (simp add: bindE_def py_nth_def)
      have upv: "elems up ((oi @ a' # m) @ c' # [])
          = (if c' < rk1 then elems er ((oi @ a' # m) @ c' # []) else elems ?zeros ((oi @ a' # m) @ (c' - rk1) # []))" for a'
        by (rule concat_elems[of er "?bp @ rk # ms" rk1 "[]" ?zeros lk1, OF _ _ rdl(2) up(1) lip(2)])
           (use er(2) z in auto)
      have lov: "elems lo' ((oi @ a' # m) @ c' # [])
          = (if c' < rk1 then elems proj ((oi @ a' # m) @ c' # []) else elems el ((oi @ a' # m) @ (c' - rk1) # []))" for a'
        by (rule concat_elems[of proj "?bp @ lk # ms" rk1 "[]" el lk1, OF _ _ rdl(1) lo'(1) lip(1)])
           (use P el(2) in auto)
      have "elems c (oi @ a # (m @ [c']))
          = (if a < rk then elems up (oi @ a # (m @ [c'])) else elems lo' (oi @ (a - rk) # (m @ [c'])))"
        by (rule concat_elems[of up ?bp rk "ms @ [rk1 + lk1]" lo' lk, OF _ _ ldl cc lo])
           (use up(2) lo'(2) in auto)
      then show ?thesis
        using False k0 idx(2,4) upv[of a] lov[of "a - rk"] erv[of a c'] elv[of "a - rk" "c' - rk1"]
        by (auto simp: tf_zeros_def)
    qed
  qed
qed

lemma chain_at_rch:
  assumes dims: "\<And>i. i < length cs \<Longrightarrow> dims (cs ! i) = bp @ r i # sh i @ [r (Suc i)]"
    and pre: "length pre = length bp"
  shows "k \<le> length cs \<Longrightarrow> j \<in> multi_idx (map sh [k..<length cs]) \<Longrightarrow>
     chain_at pre (drop k cs) j a 0 = rch (acore pre cs) r k j a"
proof (induction j arbitrary: k a)
  case Nil
  have "length ([]::nat list list) = length (map sh [k..<length cs])"
    using multi_idx_length[OF Nil(2)] .
  then have "k = length cs" using Nil(1) by simp
  then show ?case by simp
next
  case (Cons m j)
  have "length (m # j) = length (map sh [k..<length cs])"
    using multi_idx_length[OF Cons(3)] .
  then have k: "k < length cs" by auto
  have u: "[k..<length cs] = k # [Suc k..<length cs]" using k by (simp add: upt_conv_Cons)
  have m: "m \<in> mode_idx (sh k)" and j: "j \<in> multi_idx (map sh [Suc k..<length cs])"
    using Cons(3) unfolding u by (simp_all add: multi_idx_Cons_iff)
  have d: "drop k cs = cs ! k # drop (Suc k) cs" using k by (simp add: Cons_nth_drop_Suc)
  have da: "dim_at (cs ! k) (Suc (length pre + length m)) = r (Suc k)"
    using dims[OF k] pre mode_idx_length[OF m] by (simp add: dim_at_def nth_append)
  have ac: "elems (cs ! k) (pre @ a # m @ [c']) = acore pre cs k a m c'" for c'
    by (simp add: acore_def)
  have IH: "chain_at pre (drop (Suc k) cs) j a' 0 = rch (acore pre cs) r (Suc k) j a'" for a'
    using Cons.IH[of "Suc k" a'] k j by simp
  show ?case
    unfolding d by (simp add: da IH ac)
qed


lemma acore_expand:
  assumes "k < length cs"
  shows "acore [s'] (map tf_expand_dims0 cs) k = acore [] cs k"
  using assms by (intro ext) (simp add: acore_def tf_expand_dims0_def)

lemma rch_eq:
  assumes "\<And>k'. k' < d \<Longrightarrow> G k' = G' k'"
  shows "length j = d - k \<Longrightarrow> k \<le> d \<Longrightarrow> rch G r k j a = rch G' r k j a"
proof (induction j arbitrary: k a)
  case Nil
  then show ?case by simp
next
  case (Cons m j)
  then have k: "k < d" by auto
  have "rch G r (Suc k) j a' = rch G' r (Suc k) j a'" for a'
    using Cons.IH[of "Suc k" a'] Cons.prems by simp
  then show ?case using assms[OF k] by simp
qed

lemma full_elem_rch:
  assumes v: "valid_tt t" and j: "j \<in> multi_idx (map (mode_sizes t) [0..<ndims t])"
  shows "rch (acore [s'] (tt_cores (expand_batch_dim t))) ((!) (lazy_tt_ranks t)) 0 j 0 = full_elem t s' j"
proof -
  have d: "\<And>i. i < length (tt_cores t) \<Longrightarrow> dims (tt_cores t ! i)
      = batch_prefix t @ lazy_tt_ranks t ! i # mode_sizes t i @ [lazy_tt_ranks t ! Suc i]"
    using valid_ttD(7)[OF v] by (simp add: ndims_def)
  have j': "j \<in> multi_idx (map (mode_sizes t) [0..<length (tt_cores t)])"
    using j by (simp add: ndims_def)
  show ?thesis
  proof (cases "batch_size t")
    case None
    have "chain_at [] (drop 0 (tt_cores t)) j 0 0 = rch (acore [] (tt_cores t)) ((!) (lazy_tt_ranks t)) 0 j 0"
      by (rule chain_at_rch[where bp = "batch_prefix t" and sh = "mode_sizes t", OF d _ _ j'])
         (simp_all add: batch_prefix_def None)
    moreover have "rch (acore [s'] (map tf_expand_dims0 (tt_cores t))) ((!) (lazy_tt_ranks t)) 0 j 0
        = rch (acore [] (tt_cores t)) ((!) (lazy_tt_ranks t)) 0 j 0"
      by (rule rch_eq[where d = "length (tt_cores t)"])
         (use multi_idx_length[OF j'] in \<open>simp_all add: acore_expand\<close>)
    ultimately show ?thesis
      by (simp add: full_elem_def None full_at_def expand_batch_dim_def)
  next
    case (Some b)
    have "chain_at [s'] (drop 0 (tt_cores t)) j 0 0 = rch (acore [s'] (tt_cores t)) ((!) (lazy_tt_ranks t)) 0 j 0"
      by (rule chain_at_rch[where bp = "batch_prefix t" and sh = "mode_sizes t", OF d _ _ j'])
         (simp_all add: batch_prefix_def Some)
    then show ?thesis
      by (simp add: full_elem_def Some full_batch_at_def expand_batch_dim_def)
  qed
qed

lemma tangent_setup:
  assumes ok: "projection_inputs_ok orth what where"
  defines "n \<equiv> ndims where"
    and "left \<equiv> orth where True" and "right \<equiv> orth (orth where True) False"
    and "s \<equiv> lazy_batch_size what" and "xr \<equiv> lazy_tt_ranks what"
    and "lr \<equiv> lazy_tt_ranks (orth where True)" and "rr \<equiv> lazy_tt_ranks (orth (orth where True) False)"
    and "mode_str \<equiv> (if is_tt_matrix where then ''ij'' else ''i'')"
    and "what' \<equiv> expand_batch_dim what"
  shows "length (tt_cores what') = n"
    and "\<And>k. k < n \<Longrightarrow> dims (tt_cores what' ! k) = s # xr ! k # mode_sizes where k @ [xr ! (k + 1)]"
    and "length (tt_cores left) = n"
    and "\<And>k. k < n \<Longrightarrow> dims (tt_cores left ! k) = lr ! k # mode_sizes where k @ [lr ! (k + 1)]"
    and "length (tt_cores right) = n"
    and "\<And>k. k < n \<Longrightarrow> dims (tt_cores right ! k) = rr ! k # mode_sizes where k @ [rr ! (k + 1)]"
    and "xr ! 0 = 1" "xr ! n = 1" "lr ! 0 = 1" "lr ! n = 1" "rr ! 0 = 1" "rr ! n = 1"
      "length lr = n + 1" "length rr = n + 1"
    and "\<exists>rhs. prepare_rhs mode_str what' right n s = Inr rhs \<and> length rhs = n + 1
           \<and> (\<forall>j. 1 \<le> j \<and> j \<le> n \<longrightarrow> (\<exists>t. rhs ! j = Some t \<and> dims t = [s, xr ! j, rr ! j]
                \<and> (\<forall>s' b c. elems t [s', b, c]
                     = RHn (acore [] (tt_cores right)) ((!) rr) (acore [s'] (tt_cores what')) ((!) xr)
                         (mode_sizes where) (n - j) j b c)))"
    and "\<exists>lhs. prepare_lhs mode_str what' left n s = Inr lhs \<and> length lhs = n + 1
           \<and> (\<forall>j. j \<le> n - 1 \<longrightarrow> (\<exists>t. lhs ! j = Some t \<and> dims t = [s, lr ! j, xr ! j]
                \<and> (\<forall>s' a b. elems t [s', a, b]
                     = LHv (acore [] (tt_cores left)) ((!) lr) (acore [s'] (tt_cores what')) ((!) xr)
                         (mode_sizes where) j a b)))"
proof -
  note f = inputs_ok_facts[OF ok, folded n_def left_def right_def]
  have mo: "mode_ok mode_str (mode_sizes where k)" for k
    unfolding mode_str_def by (rule mode_sizes_mode_ok(1)[OF valid_ttD(2)[OF f(2)]])
  show W: "length (tt_cores what') = n"
    "\<And>k. k < n \<Longrightarrow> dims (tt_cores what' ! k) = s # xr ! k # mode_sizes where k @ [xr ! (k + 1)]"
    using expand_batch_dim_cores[OF f(1)] expand_batch_dim_length[of what] f(11,15)
    by (simp_all add: what'_def s_def xr_def)
  show U: "length (tt_cores left) = n"
    "\<And>k. k < n \<Longrightarrow> dims (tt_cores left ! k) = lr ! k # mode_sizes where k @ [lr ! (k + 1)]"
    using valid_ttD(7)[OF f(3)] f(6,12,16)
    by (simp_all add: lr_def left_def batch_prefix_def ndims_def)
  show V: "length (tt_cores right) = n"
    "\<And>k. k < n \<Longrightarrow> dims (tt_cores right ! k) = rr ! k # mode_sizes where k @ [rr ! (k + 1)]"
    using valid_ttD(7)[OF f(4)] f(7,13,17)
    by (simp_all add: rr_def right_def batch_prefix_def ndims_def)
  show ends: "xr ! 0 = 1" "xr ! n = 1" "lr ! 0 = 1" "lr ! n = 1" "rr ! 0 = 1" "rr ! n = 1"
    "length lr = n + 1" "length rr = n + 1"
    using valid_ttD(4,5,6)[OF f(1)] valid_ttD(4,5,6)[OF f(3)] valid_ttD(4,5,6)[OF f(4)] f(11,12,13)
    by (simp_all add: xr_def lr_def rr_def left_def right_def)
  show "\<exists>rhs. prepare_rhs mode_str what' right n s = Inr rhs \<and> length rhs = n + 1
           \<and> (\<forall>j. 1 \<le> j \<and> j \<le> n \<longrightarrow> (\<exists>t. rhs ! j = Some t \<and> dims t = [s, xr ! j, rr ! j]
                \<and> (\<forall>s' b c. elems t [s', b, c]
                     = RHn (acore [] (tt_cores right)) ((!) rr) (acore [s'] (tt_cores what')) ((!) xr)
                         (mode_sizes where) (n - j) j b c)))"
    by (rule prepare_rhs_vals[of mode_str "mode_sizes where" what' n s xr right rr, OF mo W V ends(2,6)])
  show "\<exists>lhs. prepare_lhs mode_str what' left n s = Inr lhs \<and> length lhs = n + 1
           \<and> (\<forall>j. j \<le> n - 1 \<longrightarrow> (\<exists>t. lhs ! j = Some t \<and> dims t = [s, lr ! j, xr ! j]
                \<and> (\<forall>s' a b. elems t [s', a, b]
                     = LHv (acore [] (tt_cores left)) ((!) lr) (acore [s'] (tt_cores what')) ((!) xr)
                         (mode_sizes where) j a b)))"
    by (rule prepare_lhs_vals[of mode_str "mode_sizes where" what' n s xr left lr, OF mo W U ends(1,3)])
qed

lemma assemble_tangent:
  assumes lenms: "length ms = (if matrix then 2 else 1)"
    and P: "dims proj = (if oib then [obs] else []) @ lr ! k # ms @ [rr ! (k + 1)]"
    and U: "dims (lefts ! k) = lr ! k # ms @ [lr ! (k + 1)]"
    and V: "dims (rights ! k) = rr ! k # ms @ [rr ! (k + 1)]"
    and rd: "right_rank_dim = (if matrix then 3 else 2) + (if oib then 1 else 0)"
    and ld: "left_rank_dim = (if oib then 1 else 0)"
    and raw: "length raw = (if matrix then 2 else 1)" "\<forall>row\<in>set raw. k < length row"
      "ms = map (\<lambda>row. row ! k) raw"
    and ranks: "length rr = n + 1" "length lr = n + 1" and k: "k < n"
    and run: "assemble_core oib matrix obs right_rank_dim left_rank_dim n raw rr lr k proj
                (lefts ! k) (rights ! k) = Inr c"
    and Pv: "\<And>a m c. a < lr ! k \<Longrightarrow> m \<in> mode_idx ms \<Longrightarrow> c < rr ! (k + 1)
               \<Longrightarrow> elems proj (oi @ a # m @ [c]) = PE k a m c"
    and idx: "oi \<in> mode_idx (if oib then [obs] else [])" "a < tangent_rank ((!) lr) ((!) rr) n k"
      "m \<in> mode_idx ms" "c' < tangent_rank ((!) lr) ((!) rr) n (Suc k)"
  shows "elems c (oi @ a # m @ [c'])
       = block_core ((!) lr) ((!) rr) n PE (acore [] lefts) (acore [] rights) k a m c'"
proof -
  have a: "a < (if k = 0 then lr ! k else rr ! k + lr ! k)"
    using idx(2) k by (auto simp: tangent_rank_def split: if_splits)
  have c: "c' < (if k \<noteq> 0 \<and> k = n - 1 then rr ! (k + 1) else rr ! (k + 1) + lr ! (k + 1))"
    using idx(4) k by (auto simp: tangent_rank_def split: if_splits)
  have kk: "k < length rr" "k + 1 < length lr" using ranks k by auto
  have e: "elems c (oi @ a # m @ [c'])
       = (if k = 0 then (if c' < rr ! (k + 1) then elems proj (oi @ a # m @ [c'])
                         else elems (lefts ! k) (a # m @ [c' - rr ! (k + 1)]))
          else if k = n - 1 then (if a < rr ! k then elems (rights ! k) (a # m @ [c'])
                                  else elems proj (oi @ (a - rr ! k) # m @ [c']))
          else if a < rr ! k then (if c' < rr ! (k + 1) then elems (rights ! k) (a # m @ [c']) else 0)
          else (if c' < rr ! (k + 1) then elems proj (oi @ (a - rr ! k) # m @ [c'])
                else elems (lefts ! k) ((a - rr ! k) # m @ [c' - rr ! (k + 1)])))"
    by (rule assemble_core_elems[OF lenms P U V rd ld raw kk(1) refl kk(2) refl run idx(1) a idx(3) c])
  have kn: "k = n - 1 \<longleftrightarrow> Suc k = n" using k by auto
  show ?thesis
  proof (cases "k = 0")
    case True
    then show ?thesis
      unfolding e block_core_def using a Pv[of a m c'] idx(3) by (simp add: acore_def)
  next
    case k0: False
    show ?thesis
    proof (cases "Suc k = n")
      case True
      then show ?thesis
        unfolding e block_core_def using k0 kn a c Pv[of "a - rr ! k" m c'] idx(3)
        by (auto simp: acore_def)
    next
      case False
      then show ?thesis
        unfolding e block_core_def using k0 kn a c Pv[of "a - rr ! k" m c'] idx(3)
        by (auto simp: acore_def)
    qed
  qed
qed

lemma project_sum_cores:
  assumes ok: "projection_inputs_ok orth what where" and wok: "weights_ok what weights"
  shows "\<exists>r. project_sum orth what where weights = Inr r
           \<and> batch_size r = output_batch weights \<and> length (tt_cores r) = ndims where
           \<and> (\<forall>k<ndims where. dims (tt_cores r ! k)
                 = projected_dims (option_prefix (output_batch weights)) where
                     (lazy_tt_ranks (orth (orth where True) False)) (lazy_tt_ranks (orth where True)) k)
           \<and> (\<forall>k<ndims where. \<forall>oi a m c.
                 oi \<in> mode_idx (option_prefix (output_batch weights))
                 \<longrightarrow> a < tangent_ranks_at orth where k \<longrightarrow> m \<in> mode_idx (mode_sizes where k)
                 \<longrightarrow> c < tangent_ranks_at orth where (Suc k)
                 \<longrightarrow> acore oi (tt_cores r) k a m c
                       = tangent_cores_at orth where (weighted_sum what weights oi) k a m c)"
proof -
  define n where "n = ndims where"
  define left where "left = orth where True"
  define right where "right = orth (orth where True) False"
  define s where "s = lazy_batch_size what"
  define xr where "xr = lazy_tt_ranks what"
  define lr where "lr = lazy_tt_ranks (orth where True)"
  define rr where "rr = lazy_tt_ranks (orth (orth where True) False)"
  define mode_str where "mode_str = (if is_tt_matrix where then ''ij'' else ''i'')"
  define another where "another = (if is_tt_matrix where then ''rt'' else ''r'')"
  define oib where "oib = (case weights of None \<Rightarrow> False
                 | Some w \<Rightarrow> length (dims w) > 1 \<and> dims w ! 1 > 1)"
  define obstr where "obstr = (if oib then ''o'' else [])"
  define obs where "obs = (case weights of None \<Rightarrow> 0 | Some w \<Rightarrow> dim_at w 1)"
  define os where "os = (if oib then [obs] else [])"
  define what' where "what' = expand_batch_dim what"
  define U' where "U' = acore [] (tt_cores left)"
  define V' where "V' = acore [] (tt_cores right)"
  define X' where "X' = (\<lambda>s'. acore [s'] (tt_cores what'))"
  define sh where "sh = mode_sizes where"
  note f = inputs_ok_facts[OF ok, folded n_def left_def right_def]
  note ts = tangent_setup[OF ok, folded n_def left_def right_def s_def xr_def lr_def rr_def
      mode_str_def what'_def U'_def V'_def sh_def]
  note W = ts(1,2) and U = ts(3,4) and V = ts(5,6) and ends = ts(7-14)
  have ob: "output_batch weights = (if oib then Some obs else None)"
    by (auto simp: output_batch_def oib_def obs_def dim_at_def split: option.splits)
  have bp: "option_prefix (output_batch weights) = os"
    by (simp add: ob os_def option_prefix_def)
  have oo: "out_ok obstr os"
    by (simp add: out_ok_def obstr_def os_def)
  have Wt: "case weights of None \<Rightarrow> os = [] | Some w \<Rightarrow> dims w = s # os"
  proof (cases weights)
    case None
    then show ?thesis by (simp add: os_def oib_def)
  next
    case (Some w)
    then have "dims w = [s] \<or> (length (dims w) = 2 \<and> dims w ! 0 = s \<and> dims w ! 1 > 1)"
      using wok by (simp add: weights_ok_def s_def)
    then show ?thesis
    proof
      assume "dims w = [s]"
      then show ?thesis using Some by (simp add: os_def oib_def)
    next
      assume a: "length (dims w) = 2 \<and> dims w ! 0 = s \<and> dims w ! 1 > 1"
      then obtain o' where "dims w = [s, o']"
        by (auto simp: length_Suc_conv eval_nat_numeral)
      then show ?thesis using Some a by (simp add: os_def oib_def obs_def dim_at_def)
    qed
  qed
  have mo: "mode_ok mode_str (sh k)" for k
    unfolding mode_str_def sh_def by (rule mode_sizes_mode_ok(1)[OF valid_ttD(2)[OF f(2)]])
  have mo2: "modes_ok mode_str another (sh k)" for k
    unfolding mode_str_def another_def sh_def by (rule mode_sizes_mode_ok(2)[OF valid_ttD(2)[OF f(2)]])
  have lenms: "length (sh k) = (if is_tt_matrix where then 2 else 1)" for k
    unfolding sh_def by (rule mode_sizes_mode_ok(3)[OF valid_ttD(2)[OF f(2)]])
  obtain rhs where rhs: "prepare_rhs mode_str what' right n s = Inr rhs" "length rhs = n + 1"
    "\<forall>j. 1 \<le> j \<and> j \<le> n \<longrightarrow> (\<exists>t. rhs ! j = Some t \<and> dims t = [s, xr ! j, rr ! j]
        \<and> (\<forall>s' b c. elems t [s', b, c] = RHn V' ((!) rr) (X' s') ((!) xr) sh (n - j) j b c))"
    using ts(15) unfolding X'_def by blast
  obtain lhs where lhs: "prepare_lhs mode_str what' left n s = Inr lhs" "length lhs = n + 1"
    "\<forall>j. j \<le> n - 1 \<longrightarrow> (\<exists>t. lhs ! j = Some t \<and> dims t = [s, lr ! j, xr ! j]
        \<and> (\<forall>s' a b. elems t [s', a, b] = LHv U' ((!) lr) (X' s') ((!) xr) sh j a b))"
    using ts(16) unfolding X'_def by blast
  have Feq: "(\<Sum>s'<s. weight_at weights oi s' * rch (X' s') ((!) xr) 0 j 0) = weighted_sum what weights oi j"
    if "j \<in> multi_idx (map sh [0..<n])" for oi j
  proof -
    have "map sh [0..<n] = map (mode_sizes what) [0..<ndims what]"
      using f(11,15) by (simp add: sh_def)
    then have "rch (X' s') ((!) xr) 0 j 0 = full_elem what s' j" for s'
      using full_elem_rch[OF f(1), of j s'] that by (simp add: X'_def what'_def xr_def)
    then show ?thesis by (simp add: weighted_sum_def s_def)
  qed
  let ?rd = "(if is_tt_matrix where then 3 else 2) + (if oib then 1 else 0)"
  let ?ld = "if oib then 1 else (0::nat)"
  let ?body = "\<lambda>core_idx.
                   bindE (py_nth (tt_cores what') core_idx) (\<lambda>tens_core.
                   bindE (py_nth (tt_cores left) core_idx) (\<lambda>left_tang_core.
                   bindE (py_nth (tt_cores right) core_idx) (\<lambda>right_tang_core.
                   bindE (project_sum_proj_core mode_str another obstr weights n core_idx lhs rhs
                            tens_core left_tang_core) (\<lambda>proj_core.
                   assemble_core oib (is_tt_matrix where) obs
                     ?rd ?ld n (lazy_raw_shape where) rr lr
                     core_idx proj_core left_tang_core right_tang_core))))"
  let ?Q = "\<lambda>k c. dims c = projected_dims os where rr lr k
      \<and> (\<forall>oi a m c'. oi \<in> mode_idx os \<longrightarrow> a < tangent_rank ((!) lr) ((!) rr) n k
            \<longrightarrow> m \<in> mode_idx (sh k) \<longrightarrow> c' < tangent_rank ((!) lr) ((!) rr) n (Suc k)
            \<longrightarrow> elems c (oi @ a # m @ [c'])
                  = tangent_core U' ((!) lr) V' ((!) rr) sh n (weighted_sum what weights oi) k a m c')"
  have body: "\<exists>c. ?body k = Inr c \<and> ?Q k c" if kin: "k \<in> set [0..<n]" for k
  proof -
    have k: "k < n" using kin by simp
    have "k \<le> n - 1" using k by simp
    then obtain L where L: "lhs ! k = Some L" "dims L = [s, lr ! k, xr ! k]"
      "\<And>s' a b. elems L [s', a, b] = LHv U' ((!) lr) (X' s') ((!) xr) sh k a b"
      using lhs(3) by blast
    have gL: "get_acc lhs k = Inr L" using L(1) lhs(2) k by (intro get_acc_Some) auto
    have inner: "\<exists>R. get_acc rhs (k + 1) = Inr R \<and> dims R = [s, xr ! Suc k, rr ! Suc k]
        \<and> (\<forall>s' b c. elems R [s', b, c] = RHn V' ((!) rr) (X' s') ((!) xr) sh (n - Suc k) (Suc k) b c)"
      if kin: "k < n - 1"
    proof -
      have k1: "1 \<le> k + 1 \<and> k + 1 \<le> n" using kin by auto
      obtain R where R: "rhs ! (k + 1) = Some R" "dims R = [s, xr ! (k + 1), rr ! (k + 1)]"
        "\<And>s' b c. elems R [s', b, c] = RHn V' ((!) rr) (X' s') ((!) xr) sh (n - (k + 1)) (k + 1) b c"
        using rhs(3) k1 by blast
      have "get_acc rhs (k + 1) = Inr R" using R(1) rhs(2) kin by (intro get_acc_Some) auto
      then show ?thesis using R(2,3) by auto
    qed
    have inner0: "\<exists>R. get_acc rhs (k + 1) = Inr R \<and> dims R = [s, xr ! (k + 1), rr ! (k + 1)]"
      if kin: "k < n - 1"
      using inner[OF kin] by auto
    have last: "xr ! (k + 1) = rr ! (k + 1)" if "k = n - 1"
      using that ends(2,6) f(14) by simp
    have Td: "dims (tt_cores what' ! k) = s # xr ! k # sh k @ [xr ! Suc k]"
      using W(2)[OF k] by (simp add: sh_def)
    have Ud: "dims (tt_cores left ! k) = lr ! k # sh k @ [lr ! Suc k]"
      using U(2)[OF k] by (simp add: sh_def)
    have Vd: "dims (tt_cores right ! k) = rr ! k # sh k @ [rr ! Suc k]"
      using V(2)[OF k] by (simp add: sh_def)
    have Tv: "X' s' k a m b = elems (tt_cores what' ! k) (s' # a # m @ [b])" for s' a m b
      by (simp add: X'_def acore_def)
    have Uv: "U' k a m b = elems (tt_cores left ! k) (a # m @ [b])" for a m b
      by (simp add: U'_def acore_def)
    have Td1: "dims (tt_cores what' ! k) = s # xr ! k # sh k @ [xr ! (k + 1)]" using Td by simp
    have Ud1: "dims (tt_cores left ! k) = lr ! k # sh k @ [lr ! (k + 1)]" using Ud by simp
    have Vd1: "dims (tt_cores right ! k) = rr ! k # sh k @ [rr ! (k + 1)]" using Vd by simp
    obtain p where p: "project_sum_proj_core mode_str another obstr weights n k lhs rhs
           (tt_cores what' ! k) (tt_cores left ! k) = Inr p"
      "dims p = os @ lr ! k # sh k @ [rr ! (k + 1)]"
      using project_sum_proj_core_dims[OF mo2 oo k gL L(2) Td1 Ud1 Wt inner0 last] by blast
    have P: "dims p = (if oib then [obs] else []) @ lr ! k # sh k @ [rr ! (k + 1)]"
      using p(2) by (simp add: os_def)
    have wa: "(\<lambda>s'. case weights of None \<Rightarrow> 1 | Some w \<Rightarrow> elems w (s' # oi)) = weight_at weights oi" for oi
      by (intro ext) (simp add: weight_at_def)
    have pv: "elems p (oi @ a # m @ [c])
        = proj_entry U' ((!) lr) V' ((!) rr) sh n k (weighted_sum what weights oi) a m c"
      if idx: "oi \<in> mode_idx os" "a < lr ! k" "m \<in> mode_idx (sh k)" "c < rr ! (k + 1)" for oi a m c
    proof -
      have lo: "length oi = length os" by (rule mode_idx_length[OF idx(1)])
      have c': "c < rr ! Suc k" using idx(4) by simp
      have "elems p (oi @ a # m @ [c])
        = (let Cw = common_sum U' ((!) lr) V' ((!) rr) X' ((!) xr) sh n k s
                     (\<lambda>s'. case weights of None \<Rightarrow> 1 | Some w \<Rightarrow> elems w (s' # oi))
          in if k < n - 1 then tangent_part U' ((!) lr) sh k Cw a m c else Cw a m c)"
        by (rule project_sum_proj_core_vals[where U = U' and lr = "(!) lr" and V = V' and rr = "(!) rr"
              and X = X' and xr = "(!) xr" and sh = sh and n = n and k = k and s = s,
              OF mo2 oo k gL L(2) L(3) Td Tv Ud Uv Wt inner ends(2) ends(6) p(1) lo idx(1) idx(2) idx(3) c'])
      also have "\<dots> = proj_entry U' ((!) lr) V' ((!) rr) sh n k
           (\<lambda>j. \<Sum>s'<s. weight_at weights oi s' * rch (X' s') ((!) xr) 0 j 0) a m c"
        unfolding wa
        by (rule proj_core_entry[where lr = "(!) lr" and xr = "(!) xr" and rr = "(!) rr" and d = n,
              OF ends(3) ends(1) ends(2) ends(6) k idx(2) c'])
      also have "\<dots> = proj_entry U' ((!) lr) V' ((!) rr) sh n k (weighted_sum what weights oi) a m c"
        by (rule proj_entry_cong[where sh = sh and k = k and d = n, OF k idx(3)]) (rule Feq)
      finally show ?thesis .
    qed
    have raw: "length (lazy_raw_shape where) = (if is_tt_matrix where then 2 else 1)"
      "\<forall>row\<in>set (lazy_raw_shape where). k < length row"
      "sh k = map (\<lambda>row. row ! k) (lazy_raw_shape where)"
      using valid_ttD(2,3)[OF f(2)] k
      by (auto simp: lazy_raw_shape_def is_tt_matrix_def mode_sizes_def n_def sh_def)
    obtain c where c: "assemble_core oib (is_tt_matrix where) obs ?rd ?ld n (lazy_raw_shape where) rr lr
        k p (tt_cores left ! k) (tt_cores right ! k) = Inr c"
      "dims c = (if oib then [obs] else []) @ (if k = 0 then lr ! k else rr ! k + lr ! k) # sh k
                        @ [if k \<noteq> 0 \<and> k = n - 1 then rr ! (k + 1) else rr ! (k + 1) + lr ! (k + 1)]"
      using assemble_core_dims[OF lenms P Ud1 Vd1 refl refl raw, of rr lr n] k ends(7,8)
      by auto
    have cv: "elems c (oi @ a # m @ [c'])
        = tangent_core U' ((!) lr) V' ((!) rr) sh n (weighted_sum what weights oi) k a m c'"
      if idx: "oi \<in> mode_idx os" "a < tangent_rank ((!) lr) ((!) rr) n k"
        "m \<in> mode_idx (sh k)" "c' < tangent_rank ((!) lr) ((!) rr) n (Suc k)" for oi a m c'
    proof -
      have oi: "oi \<in> mode_idx (if oib then [obs] else [])" using idx(1) by (simp add: os_def)
      have "elems c (oi @ a # m @ [c'])
          = block_core ((!) lr) ((!) rr) n
              (\<lambda>k. proj_entry U' ((!) lr) V' ((!) rr) sh n k (weighted_sum what weights oi))
              (acore [] (tt_cores left)) (acore [] (tt_cores right)) k a m c'"
        by (rule assemble_tangent[OF lenms P Ud1 Vd1 refl refl raw ends(8) ends(7) k c(1) _ oi idx(2) idx(3) idx(4)])
           (rule pv[OF idx(1)])
      then show ?thesis by (simp add: tangent_core_def U'_def V'_def)
    qed
    have "dims c = projected_dims os where rr lr k"
      using c(2) ends(3,6) f(14) by (auto simp: projected_dims_def n_def[symmetric] os_def sh_def)
    moreover have "?body k = Inr c"
      using k W(1) U(1) V(1) p(1) c(1) by (simp add: py_nth_def bindE_def)
    ultimately show ?thesis using cv by blast
  qed
  obtain cs where cs: "mapE ?body [0..<n] = Inr cs" "length cs = n"
    "\<forall>i<n. ?Q i (cs ! i)"
    using mapE_all[of "[0..<n]" ?body ?Q, OF body] by auto
  have chk: "check_args what' where = None"
    using ok by (simp add: projection_inputs_ok_def what'_def check_args_expand)
  let ?r = "if oib then TensorTrainBatch cs (get_raw_shape where) (dtype where) obs
            else TensorTrain cs (get_raw_shape where) (dtype where)"
  have run: "project_sum orth what where weights = Inr ?r"
    unfolding project_sum_def Let_def
    using chk rhs(1) lhs(1) cs(1)
    by (simp add: bindE_def n_def left_def right_def s_def rr_def lr_def mode_str_def oib_def
        obs_def what'_def another_def obstr_def lazy_batch_size_expand)
  have b: "batch_size ?r = output_batch weights"
    by (auto simp: TensorTrain_def TensorTrainBatch_def ob)
  have t: "tt_cores ?r = cs"
    by (auto simp: TensorTrain_def TensorTrainBatch_def get_raw_shape_def)
  have tc: "tangent_cores_at orth where F = tangent_core U' ((!) lr) V' ((!) rr) sh n F" for F
    by (simp add: tangent_cores_at_def Let_def U'_def V'_def lr_def rr_def sh_def n_def left_def right_def)
  have tr: "tangent_ranks_at orth where = tangent_rank ((!) lr) ((!) rr) n"
    by (simp add: tangent_ranks_at_def Let_def lr_def rr_def n_def)
  have ac: "acore oi cs k a m c = elems (cs ! k) (oi @ a # m @ [c])" for oi k a m c
    by (simp add: acore_def)
  show ?thesis
    apply (intro exI[of _ ?r] conjI)
    subgoal by (rule run)
    subgoal by (rule b)
    subgoal using cs(2) t by (simp add: n_def)
    subgoal using cs(3) unfolding t bp by (simp add: n_def rr_def lr_def)
    subgoal using cs(3) unfolding t bp tc tr ac n_def[symmetric] sh_def[symmetric] by blast
    done
qed








lemma listset_product_lists: "listset (map set xss) = set (product_lists xss)"
  by (induction xss) (auto simp: set_Cons_def)

lemma mode_idx_code [code]: "mode_idx ms = set (product_lists (map (\<lambda>n. [0..<n]) ms))"
proof -
  have "map (\<lambda>n. {..<n}) ms = map set (map (\<lambda>n. [0..<n]) ms)"
    by (simp add: atLeast_upt)
  then show ?thesis by (simp only: mode_idx_def listset_product_lists)
qed

lemma multi_idx_code [code]:
  "multi_idx sh = set (product_lists (map (\<lambda>ms. product_lists (map (\<lambda>n. [0..<n]) ms)) sh))"
proof -
  have "map mode_idx sh = map set (map (\<lambda>ms. product_lists (map (\<lambda>n. [0..<n]) ms)) sh)"
    by (simp add: mode_idx_code)
  then show ?thesis by (simp only: multi_idx_def listset_product_lists)
qed

subsection \<open>The projection of the manifold point itself\<close>















section \<open>The claims\<close>

text \<open>
  C6. Each of \<open>project\<close>, \<open>project_sum\<close> and \<open>project_matmul\<close> fails with a validation
  error exactly when \<open>where\<close> is not a single TT object, or the raw shapes of \<open>where\<close>
  and \<open>what\<close> differ, or the element type of \<open>where\<close> is not compatible with that of
  \<open>what\<close>. The failure is the one of the first check that fails, in this order, it
  carries both raw shapes (both element types), and it is the same whatever the
  orthogonalisation, the weights and the matrix are: nothing has been contracted.
  When the three checks pass, every failure comes from the array substrate.
\<close>

theorem validation_is_eager:
  "\<forall>r \<in> {project orth what where, project_sum orth what where weights,
          project_matmul orth what where matrix}.
     (\<not> is_TensorTrain where \<longrightarrow> r = Inl NotATensorTrain) \<and>
     (is_TensorTrain where \<and> get_raw_shape where \<noteq> get_raw_shape what \<longrightarrow>
        r = Inl (ShapesDiffer (get_raw_shape where) (get_raw_shape what))) \<and>
     (is_TensorTrain where \<and> get_raw_shape where = get_raw_shape what
        \<and> \<not> is_compatible_with (dtype where) (dtype what) \<longrightarrow>
        r = Inl (DtypesDiffer (dtype where) (dtype what))) \<and>
     (is_TensorTrain where \<and> get_raw_shape where = get_raw_shape what
        \<and> is_compatible_with (dtype where) (dtype what) \<longrightarrow> only_substrate r)"
proof -
  let ?bad1 = "\<not> is_TensorTrain where"
  let ?bad2 = "get_raw_shape where \<noteq> get_raw_shape what"
  let ?bad3 = "\<not> is_compatible_with (dtype where) (dtype what)"
  have c1: "?bad1 \<Longrightarrow> check_args what where = Some NotATensorTrain"
    by (simp add: check_args_def)
  have c2: "\<not> ?bad1 \<Longrightarrow> ?bad2 \<Longrightarrow>
      check_args what where = Some (ShapesDiffer (get_raw_shape where) (get_raw_shape what))"
    by (simp add: check_args_def)
  have c3: "\<not> ?bad1 \<Longrightarrow> \<not> ?bad2 \<Longrightarrow> ?bad3 \<Longrightarrow>
      check_args what where = Some (DtypesDiffer (dtype where) (dtype what))"
    by (simp add: check_args_def)
  have c4: "\<not> ?bad1 \<Longrightarrow> \<not> ?bad2 \<Longrightarrow> \<not> ?bad3 \<Longrightarrow> check_args what where = None"
    by (simp add: check_args_def)
  show ?thesis
    using c1 c2 c3 c4
      project_check_fails[of what "where" _ orth]
      project_sum_check_fails[of what "where" _ orth weights]
      project_matmul_check_fails[of what "where" _ orth matrix]
      os_project[of what "where" orth]
      os_project_sum[of what "where" orth weights]
      os_project_matmul[of what "where" orth matrix]
    by blast
qed

theorem validation_is_eager_witness:
  "is_TensorTrain ex_where \<and> get_raw_shape ex_where \<noteq> get_raw_shape ex_what_23
   \<and> project ex_orth ex_what_23 ex_where = Inl (ShapesDiffer [[2, 2]] [[2, 3]])
   \<and> project_sum ex_orth ex_what_23 ex_where None = Inl (ShapesDiffer [[2, 2]] [[2, 3]])
   \<and> project_matmul ex_orth ex_what_23 ex_where ex_where = Inl (ShapesDiffer [[2, 2]] [[2, 3]])
   \<and> \<not> is_TensorTrain ex_batch
   \<and> project ex_orth ex_what ex_batch = Inl NotATensorTrain
   \<and> is_compatible_with (dtype ex_where) (dtype ex_what)
   \<and> get_raw_shape ex_where = get_raw_shape ex_what
   \<and> only_substrate (project ex_orth ex_what ex_where)"
  using validation_is_eager[of ex_orth ex_what_23 ex_where None ex_where]
    validation_is_eager[of ex_orth ex_what ex_batch None ex_where]
    validation_is_eager[of ex_orth ex_what ex_where None ex_where]
  by (simp add: ex_where_def ex_what_23_def ex_batch_def ex_what_def TensorTrain_def
      TensorTrainBatch_def is_TensorTrain_def get_raw_shape_def is_compatible_with_def)




text \<open>
  C2. Whatever each of the three operations returns has the raw shape of \<open>where\<close>; on
  every valid pair \<open>project\<close> and \<open>project_sum\<close> do return (\<open>project_matmul\<close> on every
  valid batch), and the mode axes of every returned core have the mode sizes of
  \<open>where\<close>.
\<close>

theorem raw_shape_preserved:
  "(\<forall>r. project orth what where = Inr r \<longrightarrow> get_raw_shape r = get_raw_shape where)
   \<and> (\<forall>r. project_sum orth what where weights = Inr r \<longrightarrow> get_raw_shape r = get_raw_shape where)
   \<and> (\<forall>r. project_matmul orth what where matrix = Inr r \<longrightarrow> get_raw_shape r = get_raw_shape where)
   \<and> (projection_inputs_ok orth what where \<longrightarrow>
        (\<exists>r. project orth what where = Inr r \<and> get_raw_shape r = get_raw_shape where
            \<and> (\<forall>k<ndims where. core_mode_sizes r k = mode_sizes where k)))
   \<and> (projection_inputs_ok orth what where \<and> weights_ok what weights \<longrightarrow>
        (\<exists>r. project_sum orth what where weights = Inr r \<and> get_raw_shape r = get_raw_shape where
            \<and> (\<forall>k<ndims where. core_mode_sizes r k = mode_sizes where k)))
   \<and> (matmul_inputs_ok orth what where matrix \<longrightarrow>
        (\<exists>r. project_matmul orth what where matrix = Inr r \<and> get_raw_shape r = get_raw_shape where
            \<and> (\<forall>k<ndims where. core_mode_sizes r k = mode_sizes where k)))"
  using project_result[of orth what "where"] project_sum_result(1)[of orth what "where" weights]
    project_matmul_result[of orth what "where" matrix]
    project_modes[of orth what "where"] project_sum_modes[of orth what "where" weights]
    project_matmul_modes[of orth what "where" matrix]
  by blast

theorem raw_shape_preserved_witness:
  "projection_inputs_ok ex_orth ex_what ex_where
   \<and> result_raw_shape (project ex_orth ex_what ex_where) = [[2, 2]]
   \<and> get_raw_shape ex_where = [[2, 2]]
   \<and> projection_inputs_ok ex_orth ex_batch ex_where \<and> weights_ok ex_batch None
   \<and> result_raw_shape (project_sum ex_orth ex_batch ex_where None) = [[2, 2]]
   \<and> matmul_inputs_ok ex_orth ex_mbatch ex_mwhere ex_matrix
   \<and> result_raw_shape (project_matmul ex_orth ex_mbatch ex_mwhere ex_matrix) = [[2, 2], [1, 1]]
   \<and> get_raw_shape ex_mwhere = [[2, 2], [1, 1]]"
proof -
  have s: "get_raw_shape ex_where = [[2, 2]]" "get_raw_shape ex_mwhere = [[2, 2], [1, 1]]"
    by code_simp+
  have a: "projection_inputs_ok ex_orth ex_what ex_where" by code_simp
  have b: "projection_inputs_ok ex_orth ex_batch ex_where" "weights_ok ex_batch None"
    by code_simp+
  have c: "matmul_inputs_ok ex_orth ex_mbatch ex_mwhere ex_matrix" by code_simp
  have "result_raw_shape (project ex_orth ex_what ex_where) = [[2, 2]]"
    using raw_shape_preserved[of ex_orth ex_what ex_where None ex_matrix] a s(1)
    by (auto simp: result_raw_shape_def)
  moreover have "result_raw_shape (project_sum ex_orth ex_batch ex_where None) = [[2, 2]]"
    using raw_shape_preserved[of ex_orth ex_batch ex_where None ex_matrix] b s(1)
    by (auto simp: result_raw_shape_def)
  moreover have "result_raw_shape (project_matmul ex_orth ex_mbatch ex_mwhere ex_matrix) = [[2, 2], [1, 1]]"
    using raw_shape_preserved[of ex_orth ex_mbatch ex_mwhere None ex_matrix] c s(2)
    by (auto simp: result_raw_shape_def)
  ultimately show ?thesis using s a b c by blast
qed













text \<open>
  C8 (as amended). In \<open>project_sum\<close> the gauge step is applied at every index \<open>k\<close> with
  \<open>0 \<le> k < d - 1\<close>, the first one included, and not at the last index: on every valid
  input the projection block of output core \<open>k\<close> is, for \<open>k < d - 1\<close>, the weighted common
  term \<open>C\<close> minus \<open>U\<^sub>k U\<^sub>k\<^sup>T C\<close>, and for \<open>k = d - 1\<close> the weighted common term itself.
\<close>

theorem gauge_step_indices:
  assumes "projection_inputs_ok orth what where" "weights_ok what weights"
    and "k < ndims where" "oi \<in> mode_idx (option_prefix (output_batch weights))"
    and "a < lazy_tt_ranks (orth where True) ! k" "m \<in> mode_idx (mode_sizes where k)"
    and "c < lazy_tt_ranks (orth (orth where True) False) ! (k + 1)"
  shows "\<exists>r. project_sum orth what where weights = Inr r
           \<and> elems (tt_cores r ! k) (oi @ proj_block_row orth where k a # m @ [c])
               = (if k < ndims where - 1
                  then gauge_at orth where k
                         (common_term_at orth where (weighted_sum what weights oi) k) a m c
                  else common_term_at orth where (weighted_sum what weights oi) k a m c)"
proof -
  define n where "n = ndims where"
  define lr where "lr = lazy_tt_ranks (orth where True)"
  define rr where "rr = lazy_tt_ranks (orth (orth where True) False)"
  from project_sum_cores[OF assms(1,2)] obtain r where r: "project_sum orth what where weights = Inr r"
    "\<forall>k<ndims where. \<forall>oi a m c.
                 oi \<in> mode_idx (option_prefix (output_batch weights))
                 \<longrightarrow> a < tangent_ranks_at orth where k \<longrightarrow> m \<in> mode_idx (mode_sizes where k)
                 \<longrightarrow> c < tangent_ranks_at orth where (Suc k)
                 \<longrightarrow> acore oi (tt_cores r) k a m c
                       = tangent_cores_at orth where (weighted_sum what weights oi) k a m c"
    by blast
  let ?a = "proj_block_row orth where k a"
  have tr: "tangent_ranks_at orth where = tangent_rank ((!) lr) ((!) rr) n"
    by (simp add: tangent_ranks_at_def Let_def lr_def rr_def n_def)
  have k: "k < n" using assms(3) by (simp add: n_def)
  have a: "a < lr ! k" and c: "c < rr ! Suc k" using assms(5,7) by (simp_all add: lr_def rr_def)
  have pa: "?a = (if k = 0 then a else rr ! k + a)" by (simp add: proj_block_row_def rr_def)
  have ra: "?a < tangent_ranks_at orth where k"
    using a k by (auto simp: tr tangent_rank_def pa)
  have rc: "c < tangent_ranks_at orth where (Suc k)"
    using c k by (auto simp: tr tangent_rank_def)
  have "acore oi (tt_cores r) k ?a m c
      = tangent_cores_at orth where (weighted_sum what weights oi) k ?a m c"
    using r(2) assms(3,4,6) ra rc by blast
  also have "\<dots> = proj_entry (acore [] (tt_cores (orth where True))) ((!) lr)
        (acore [] (tt_cores (orth (orth where True) False))) ((!) rr) (mode_sizes where) n k
        (weighted_sum what weights oi) a m c"
    using k c by (auto simp: tangent_cores_at_def Let_def tangent_core_def block_core_def pa
        lr_def[symmetric] rr_def[symmetric] n_def[symmetric])
  also have "\<dots> = (if k < n - 1
                  then gauge_at orth where k
                         (common_term_at orth where (weighted_sum what weights oi) k) a m c
                  else common_term_at orth where (weighted_sum what weights oi) k a m c)"
    using k by (auto simp: proj_entry_def gauge_at_def common_term_at_def Let_def
        lr_def[symmetric] rr_def[symmetric] n_def[symmetric])
  finally show ?thesis
    using r(1) by (auto simp: acore_def n_def)
qed

theorem gauge_step_indices_witness:
  "projection_inputs_ok ex_orth ex_batch ex_where \<and> weights_ok ex_batch (Some ex_weights)
   \<and> ndims ex_where = 2 \<and> [] \<in> mode_idx (option_prefix (output_batch (Some ex_weights)))
   \<and> lazy_tt_ranks (ex_orth ex_where True) = [1, 2, 1]
   \<and> lazy_tt_ranks (ex_orth (ex_orth ex_where True) False) = [1, 2, 1]
   \<and> [1] \<in> mode_idx (mode_sizes ex_where 0) \<and> [1] \<in> mode_idx (mode_sizes ex_where 1)
   \<and> result_core_entry (project_sum ex_orth ex_batch ex_where (Some ex_weights)) 0 [0, 1, 1]
       = gauge_at ex_orth ex_where 0
           (common_term_at ex_orth ex_where (weighted_sum ex_batch (Some ex_weights) []) 0) 0 [1] 1
   \<and> proj_block_row ex_orth ex_where 1 1 = 3
   \<and> result_core_entry (project_sum ex_orth ex_batch ex_where (Some ex_weights)) 1 [3, 1, 0]
       = common_term_at ex_orth ex_where (weighted_sum ex_batch (Some ex_weights) []) 1 1 [1] 0"
proof -
  have a: "projection_inputs_ok ex_orth ex_batch ex_where" "weights_ok ex_batch (Some ex_weights)"
    "ndims ex_where = 2" "[] \<in> mode_idx (option_prefix (output_batch (Some ex_weights)))"
    "lazy_tt_ranks (ex_orth ex_where True) = [1, 2, 1]"
    "lazy_tt_ranks (ex_orth (ex_orth ex_where True) False) = [1, 2, 1]"
    "[1] \<in> mode_idx (mode_sizes ex_where 0)" "[1] \<in> mode_idx (mode_sizes ex_where 1)"
    "proj_block_row ex_orth ex_where 0 0 = 0" "proj_block_row ex_orth ex_where 1 1 = 3"
    by code_simp+
  have "result_core_entry (project_sum ex_orth ex_batch ex_where (Some ex_weights)) 0 [0, 1, 1]
       = gauge_at ex_orth ex_where 0
           (common_term_at ex_orth ex_where (weighted_sum ex_batch (Some ex_weights) []) 0) 0 [1] 1"
    using gauge_step_indices[of ex_orth ex_batch ex_where "Some ex_weights" 0 "[]" 0 "[1]" 1] a
    by (auto simp: result_core_entry_def)
  moreover have "result_core_entry (project_sum ex_orth ex_batch ex_where (Some ex_weights)) 1 [3, 1, 0]
       = common_term_at ex_orth ex_where (weighted_sum ex_batch (Some ex_weights) []) 1 1 [1] 0"
    using gauge_step_indices[of ex_orth ex_batch ex_where "Some ex_weights" 1 "[]" 1 "[1]" 0] a
    by (auto simp: result_core_entry_def)
  ultimately show ?thesis using a by blast
qed

theorem gauge_at_first_index_counterexample:
  "projection_inputs_ok ex_orth ex_what ex_where \<and> ndims ex_where = 2
   \<and> common_term_at ex_orth ex_where (weighted_sum ex_what None []) 0 0 [0] 0 = 3
   \<and> gauge_at ex_orth ex_where 0
        (common_term_at ex_orth ex_where (weighted_sum ex_what None []) 0) 0 [0] 0 = 0
   \<and> result_core_entry (project_sum ex_orth ex_what ex_where None) 0 [0, 0, 0] = 0"
  by code_simp



end
